theory Spec2Isabelle
  imports Complex_Main
begin

section \<open>Geometry\<close>

text \<open>
  Page coordinates are whole pixels, modelled as \<open>int\<close>.  A position is the
  two-element array \<open>[x, y]\<close> of the source, modelled as a pair.
\<close>

type_synonym xy = "int \<times> int"

text \<open>
  A region object \<open>{top, right, bottom, left, area}\<close>.  The field \<open>top\<close> of the
  source is called \<open>top_r\<close> here.
\<close>

record region =
  top_r :: int
  right :: int
  bottom :: int
  left :: int
  area :: int

text \<open>The object returned by \<open>DDM.cssSizestoObject\<close>: four pixel sizes.\<close>

record css_sizes =
  s_top :: int
  s_right :: int
  s_bottom :: int
  s_left :: int

datatype drag_mode = POINT | INTERSECT | STRICT

section \<open>The Drag object\<close>

text \<open>Events published by a Drag, recorded in the order in which they are fired.\<close>

datatype drag_event =
    Ev_mouseDown | Ev_afterMouseDown | Ev_start xy | Ev_drag xy | Ev_end xy

text \<open>
  The fields of \<open>DD.Drag\<close> that the drag engine reads and writes.  Attributes
  (\<open>this.get("lock")\<close>) and instance fields (\<open>this.deltaXY\<close>) are fields of one
  record.  \<open>node_xy\<close>, \<open>node_w\<close> and \<open>node_h\<close> are the answers of the DOM node
  to \<open>getXY()\<close>, \<open>get("offsetWidth")\<close> and \<open>get("offsetHeight")\<close>; \<open>dragNode_w\<close>
  and \<open>dragNode_h\<close> are those of the drag node.  \<open>clickTimeout\<close> tells whether the
  timer armed by \<open>setTimeout\<close>, which runs for \<open>clickTimeThresh\<close> milliseconds, is
  pending.  \<open>groups\<close> holds the own keys of
  \<open>this._groups\<close>.
\<close>

record drag =
  node :: nat
  node_xy :: xy
  node_w :: int
  node_h :: int
  dragNode_w :: int
  dragNode_h :: int
  lock :: bool
  dragging :: bool
  offsetNode :: bool
  move :: bool
  useShim :: bool
  primaryButtonOnly :: bool
  clickPixelThresh :: int
  clickTimeThresh :: int
  dragMode :: drag_mode
  groups :: "string list"
  dragThreshMet :: bool
  fromTimeout :: bool
  clickTimeout :: bool
  ev_md :: xy
  deltaXY :: xy
  startXY :: xy
  nodeXY :: xy
  lastXY :: xy
  mouseXY :: "xy option"
  drag_region :: "region option"
  fired :: "drag_event list"

section \<open>The constraint extension (dd-constrain)\<close>

text \<open>
  \<open>dragConstrained\<close> extends \<open>DD.Drag\<close>.  An attribute whose value is \<open>false\<close> or
  an object is an option; \<open>constrain2node\<close> holds the region that the configured
  node reports for \<open>get("region")\<close>, and \<open>viewportRegion\<close> is what the drag's node
  reports for \<open>get("viewportRegion")\<close>.
\<close>

record drag_constrained = drag +
  stickX :: bool
  stickY :: bool
  tickX :: "int option"
  tickY :: "int option"
  tickXArray :: "int list option"
  tickYArray :: "int list option"
  constrain2region :: "region option"
  gutter :: css_sizes
  constrain2node :: "region option"
  constrain2view :: bool
  viewportRegion :: region

text \<open>
  \<open>getRegion(K)\<close>: the node's region if \<open>constrain2node\<close> is set, else the
  rectangle of \<open>constrain2region\<close>, else the viewport if \<open>constrain2view\<close> is set,
  else \<open>false\<close>.  The gutter is subtracted from \<open>right\<close> and \<open>bottom\<close> and added to
  the other two sides; with \<open>K\<close> the drag node's size is taken off \<open>right\<close> and
  \<open>bottom\<close>.
\<close>

definition region_source :: "drag_constrained \<Rightarrow> region option" where
  "region_source d =
     (if constrain2node d \<noteq> None then constrain2node d
      else if constrain2region d \<noteq> None then constrain2region d
      else if constrain2view d then Some (viewportRegion d)
      else None)"

definition apply_gutter :: "css_sizes \<Rightarrow> region \<Rightarrow> region" where
  "apply_gutter H I =
     I\<lparr>top_r := top_r I + s_top H, bottom := bottom I - s_bottom H,
       right := right I - s_right H, left := left I + s_left H\<rparr>"

definition getRegion :: "drag_constrained \<Rightarrow> bool \<Rightarrow> region option" where
  "getRegion d K =
     (case region_source d of
        None \<Rightarrow> None
      | Some I0 \<Rightarrow>
          let I = apply_gutter (gutter d) I0 in
          if K then Some (I\<lparr>right := right I - dragNode_w d,
                             bottom := bottom I - dragNode_h d\<rparr>)
          else Some I)"

text \<open>
  \<open>_checkRegion(C)\<close>.  When \<open>getRegion()\<close> is \<open>false\<close> every property read of it
  is \<open>undefined\<close>, every comparison is false and the position is returned as it
  came.
\<close>

definition checkRegion :: "drag_constrained \<Rightarrow> xy \<Rightarrow> xy" where
  "checkRegion d C =
     (case getRegion d False of
        None \<Rightarrow> C
      | Some J \<Rightarrow>
          let K = dragNode_h d; H = dragNode_w d;
              y1 = (if top_r J > snd C then top_r J else snd C);
              y2 = (if y1 > bottom J - K then bottom J - K else y1);
              x1 = (if left J > fst C then left J else fst C);
              x2 = (if x1 > right J - H then right J - H else x1)
          in (x2, y2))"

subsection \<open>Attribute setters\<close>

text \<open>
  Modelled from the spec: the attribute store (\<open>get\<close>, \<open>set\<close>) belongs to the
  framework's attribute class, which is not part of this bundle; \<open>set\<close> runs the
  attribute's setter and stores what it returns.  The setters themselves are in
  the bundle.  The setter of
  \<open>constrain2region\<close> accepts an object only when its four sides are truthy
  (a side that is \<open>0\<close> is not), and stores \<open>false\<close> otherwise.
\<close>

definition constrain2region_setter :: "region option \<Rightarrow> region option" where
  "constrain2region_setter C =
     (case C of
        Some r \<Rightarrow>
          if top_r r \<noteq> 0 \<and> right r \<noteq> 0 \<and> left r \<noteq> 0 \<and> bottom r \<noteq> 0
          then Some r else None
      | None \<Rightarrow> None)"

text \<open>
  The setter of \<open>constrain2node\<close>: the node is looked up only while
  \<open>constrain2region\<close> is \<open>false\<close>; in every other case the setter returns \<open>false\<close>.
  The argument is the region of the node found by \<open>Node.get\<close>, or \<open>None\<close> when
  there is no such node.
\<close>

definition constrain2node_setter ::
  "drag_constrained \<Rightarrow> region option \<Rightarrow> region option" where
  "constrain2node_setter d H =
     (if constrain2region d = None then (case H of Some C \<Rightarrow> Some C | None \<Rightarrow> None)
      else None)"

definition set_constrain2region ::
  "drag_constrained \<Rightarrow> region option \<Rightarrow> drag_constrained" where
  "set_constrain2region d C = d\<lparr>constrain2region := constrain2region_setter C\<rparr>"

definition set_constrain2node ::
  "drag_constrained \<Rightarrow> region option \<Rightarrow> drag_constrained" where
  "set_constrain2node d H = d\<lparr>constrain2node := constrain2node_setter d H\<rparr>"

definition set_constrain2view :: "drag_constrained \<Rightarrow> bool \<Rightarrow> drag_constrained" where
  "set_constrain2view d v = d\<lparr>constrain2view := v\<rparr>"

subsection \<open>Tick snapping\<close>

text \<open>
  A bound read from the region (\<open>J.left\<close>) is \<open>undefined\<close> when there is no
  region; \<open>truthy\<close> is the test that \<open>L && K\<close> and \<open>if (C)\<close> apply to such a value.
\<close>

definition truthy :: "int option \<Rightarrow> bool" where
  "truthy v = (case v of None \<Rightarrow> False | Some n \<Rightarrow> n \<noteq> 0)"

text \<open>
  \<open>_calcTicks(N, M, J, L, K)\<close>.  \<open>H\<close> is the quotient \<open>(N - M) / J\<close>, \<open>I\<close> its floor
  and \<open>C\<close> its ceiling; the test \<open>H >= I && H <= C\<close> holds for every quotient.
  The only caller passes a truthy \<open>J\<close>, so \<open>J\<close> is not \<open>0\<close>.
\<close>

definition calcTicks :: "int \<Rightarrow> int \<Rightarrow> int \<Rightarrow> int option \<Rightarrow> int option \<Rightarrow> int" where
  "calcTicks N M J L K =
     (let H = real_of_int (N - M) / real_of_int J;
          I = \<lfloor>H\<rfloor>; C = \<lceil>H\<rceil>
      in if I \<noteq> 0 \<or> C \<noteq> 0 then
           (if real_of_int I \<le> H \<and> H \<le> real_of_int C then
              (let N1 = M + J * I in
               if truthy L \<and> truthy K then
                 (let N2 = (if N1 < the L then M + J * (I + 1) else N1);
                      N3 = (if N2 > the K then M + J * (I - 1) else N2)
                  in N3)
               else N1)
            else N)
         else N)"

text \<open>
  The loop of \<open>_calcTickArray(O, P, N, K)\<close>, entered with \<open>H = 0\<close>.  \<open>P[J]\<close> is
  \<open>undefined\<close> past the end of the array, and a tick that is \<open>0\<close> is falsy.
\<close>

function tickLoop :: "int \<Rightarrow> int list \<Rightarrow> int option \<Rightarrow> int option \<Rightarrow> nat \<Rightarrow> int" where
  "tickLoop O' P N K H =
     (if H < length P then
        (let J = H + 1 in
         if J < length P \<and> P ! J \<noteq> 0 \<and> P ! J \<ge> O' then
           (let I = O' - P ! H; C = P ! J - O';
                M = (if C > I then P ! H else P ! J)
            in if truthy N \<and> truthy K then
                 (if M > the K then
                    (if P ! H \<noteq> 0 then P ! H else P ! (length P - 1))
                  else M)
               else M)
         else tickLoop O' P N K (H + 1))
      else P ! (length P - 1))"
  by pat_completeness auto
termination
  by (relation "measure (\<lambda>(O', P, N, K, H). length P - H)") auto

declare tickLoop.simps [simp del]

definition calcTickArray :: "int \<Rightarrow> int list \<Rightarrow> int option \<Rightarrow> int option \<Rightarrow> int" where
  "calcTickArray O' P N K =
     (if length P = 0 then O'
      else if P ! 0 \<ge> O' then P ! 0
      else tickLoop O' P N K 0)"

text \<open>
  \<open>_checkTicks(L, J)\<close>, where \<open>J\<close> is the region or \<open>false\<close>.  An array is truthy
  even when it is empty.
\<close>

definition checkTicks :: "drag_constrained \<Rightarrow> xy \<Rightarrow> region option \<Rightarrow> xy" where
  "checkTicks d L J =
     (let K = fst (startXY d) - fst (deltaXY d);
          I = snd (startXY d) - snd (deltaXY d);
          C = tickX d; H = tickY d;
          x1 = (if truthy C \<and> tickXArray d = None
                then calcTicks (fst L) K (the C) (map_option left J) (map_option right J)
                else fst L);
          y1 = (if truthy H \<and> tickYArray d = None
                then calcTicks (snd L) I (the H) (map_option top_r J) (map_option bottom J)
                else snd L);
          x2 = (case tickXArray d of
                  Some P \<Rightarrow> calcTickArray x1 P (map_option left J) (map_option right J)
                | None \<Rightarrow> x1);
          y2 = (case tickYArray d of
                  Some P \<Rightarrow> calcTickArray y1 P (map_option top_r J) (map_option bottom J)
                | None \<Rightarrow> y1)
      in (x2, y2))"

subsection \<open>Alignment\<close>

text \<open>\<open>Drag._align(S)\<close>: the pointer position minus the pointer-to-node offset.\<close>

definition align :: "('a drag_scheme) \<Rightarrow> xy \<Rightarrow> xy" where
  "align d S = (fst S - fst (deltaXY d), snd S - snd (deltaXY d))"

text \<open>
  The override of \<open>_align\<close> in the constraint extension: the inherited result,
  the two axis locks, the region clamp when \<open>getRegion(true)\<close> is a region, and
  then the ticks.
\<close>

definition stick :: "drag_constrained \<Rightarrow> xy \<Rightarrow> xy" where
  "stick d C =
     (let C1 = (if stickX d then (fst C, snd (startXY d) - snd (deltaXY d)) else C);
          C2 = (if stickY d then (fst (startXY d) - fst (deltaXY d), snd C1) else C1)
      in C2)"

definition clamp :: "drag_constrained \<Rightarrow> xy \<Rightarrow> xy" where
  "clamp d C = (if getRegion d True \<noteq> None then checkRegion d C else C)"

definition align_c :: "drag_constrained \<Rightarrow> xy \<Rightarrow> xy" where
  "align_c d I = checkTicks d (clamp d (stick d (align d I))) (getRegion d True)"

text \<open>\<open>inRegion(I)\<close> of the constraint extension, called with a position.\<close>

definition inRegion_c :: "drag_constrained \<Rightarrow> xy \<Rightarrow> bool" where
  "inRegion_c d I = (let H = checkRegion d I in fst I = fst H \<and> snd I = snd H)"

text \<open>
  The node, placed at position \<open>p\<close>, lies inside region \<open>J\<close>: used to state what
  clamping achieves.
\<close>

definition node_inside :: "drag_constrained \<Rightarrow> region \<Rightarrow> xy \<Rightarrow> bool" where
  "node_inside d J p \<longleftrightarrow>
     left J \<le> fst p \<and> fst p + dragNode_w d \<le> right J \<and>
     top_r J \<le> snd p \<and> snd p + dragNode_h d \<le> bottom J"

section \<open>The Drag state machine (dd-drag)\<close>

text \<open>
  A mouse event as the Drag sees it: the page coordinates, the button, and the
  answer of \<open>validClick\<close>, which only inspects the DOM target of the event.
\<close>

record mouse_event =
  pageXY :: xy
  button :: nat
  valid_target :: bool

definition node_region :: "'a drag_scheme \<Rightarrow> xy \<Rightarrow> region" where
  "node_region d S =
     \<lparr>top_r = snd S, right = fst S + node_w d, bottom = snd S + node_h d,
      left = fst S, area = 0\<rparr>"

text \<open>\<open>_setStartPosition(S)\<close>.\<close>

definition setStartPosition :: "'a drag_scheme \<Rightarrow> xy \<Rightarrow> 'a drag_scheme" where
  "setStartPosition d S =
     d\<lparr>startXY := S, nodeXY := node_xy d, lastXY := node_xy d,
       deltaXY := (if offsetNode d
                   then (fst S - fst (node_xy d), snd S - snd (node_xy d))
                   else (0, 0))\<rparr>"

text \<open>
  \<open>_handleMouseDown\<close>, the default action of \<open>drag:mouseDown\<close>.  The second
  component tells whether \<open>DDM.activeDrag\<close> was set to this Drag.
\<close>

definition handleMouseDown :: "'a drag_scheme \<Rightarrow> mouse_event \<Rightarrow> 'a drag_scheme \<times> bool" where
  "handleMouseDown d T =
     (let d1 = d\<lparr>dragThreshMet := False, ev_md := pageXY T\<rparr> in
      if primaryButtonOnly d1 \<and> button T > 1 then (d1, False)
      else if valid_target T then
        (let d2 = setStartPosition d1 (pageXY T);
             d3 = d2\<lparr>clickTimeout := True\<rparr>
         in (d3\<lparr>fired := fired d3 @ [Ev_afterMouseDown]\<rparr>, True))
      else (d1\<lparr>fired := fired d1 @ [Ev_afterMouseDown]\<rparr>, False))"

definition handleMouseDownEvent ::
  "'a drag_scheme \<Rightarrow> mouse_event \<Rightarrow> 'a drag_scheme \<times> bool" where
  "handleMouseDownEvent d S = handleMouseDown (d\<lparr>fired := fired d @ [Ev_mouseDown]\<rparr>) S"

text \<open>
  \<open>start()\<close>.  The call \<open>DDM._start\<close> prepares the page guard and the drop
  targets and leaves the Drag as it is.
\<close>

definition start :: "'a drag_scheme \<Rightarrow> 'a drag_scheme" where
  "start d =
     (if \<not> lock d \<and> \<not> dragging d then
        (let d1 = d\<lparr>dragging := True\<rparr>;
             d2 = d1\<lparr>fired := fired d1 @ [Ev_start (nodeXY d1)]\<rparr>
         in d2\<lparr>drag_region := Some (node_region d2 (nodeXY d2))\<rparr>)
      else d)"

text \<open>\<open>end()\<close>; \<open>clearTimeout\<close> disarms the click timer.\<close>

definition end_drag :: "'a drag_scheme \<Rightarrow> 'a drag_scheme" where
  "end_drag d =
     (let d1 = d\<lparr>clickTimeout := False, dragThreshMet := False, fromTimeout := False\<rparr>;
          d2 = (if \<not> lock d1 \<and> dragging d1
                then d1\<lparr>fired := fired d1 @ [Ev_end (lastXY d1)]\<rparr> else d1)
      in d2\<lparr>dragging := False, deltaXY := (0, 0)\<rparr>)"

text \<open>
  \<open>_moveNode(S, X)\<close>.  \<open>this._align\<close> is dispatched on the class of the Drag, so
  the alignment function \<open>al\<close> is a parameter: \<open>align\<close> for a plain Drag,
  \<open>align_c\<close> for a constrained one.  Moving the node by the delta \<open>T\<close> shifts its
  page position by \<open>T\<close>.
\<close>

definition moveNode ::
  "('a drag_scheme \<Rightarrow> xy \<Rightarrow> xy) \<Rightarrow> 'a drag_scheme \<Rightarrow> xy \<Rightarrow> bool \<Rightarrow> 'a drag_scheme" where
  "moveNode al d S X =
     (let W = al d S;
          T = (fst W - fst (lastXY d), snd W - snd (lastXY d));
          d1 = (if move d
                then d\<lparr>node_xy := (fst (node_xy d) + fst T, snd (node_xy d) + snd T)\<rparr>
                else d);
          d2 = d1\<lparr>drag_region := Some (node_region d1 W)\<rparr>;
          d3 = (if \<not> X then d2\<lparr>fired := fired d2 @ [Ev_drag W]\<rparr> else d2)
      in d3\<lparr>lastXY := W\<rparr>)"

text \<open>\<open>_move(U)\<close>, called by the manager with a pointer-move event at \<open>p\<close>.\<close>

definition move_ev ::
  "('a drag_scheme \<Rightarrow> xy \<Rightarrow> xy) \<Rightarrow> 'a drag_scheme \<Rightarrow> xy \<Rightarrow> 'a drag_scheme" where
  "move_ev al d p =
     (if lock d then d
      else
        (let d1 = d\<lparr>mouseXY := Some p\<rparr> in
         if \<not> dragThreshMet d1 then
           (let T = \<bar>fst (startXY d1) - fst p\<bar>; S = \<bar>snd (startXY d1) - snd p\<bar> in
            if T > clickPixelThresh d1 \<or> S > clickPixelThresh d1
            then moveNode al (start (d1\<lparr>dragThreshMet := True\<rparr>)) p False
            else d1)
         else moveNode al (d1\<lparr>clickTimeout := False\<rparr>) p False))"

text \<open>\<open>_timeoutCheck()\<close>, the callback of the click timer.\<close>

definition timeoutCheck ::
  "('a drag_scheme \<Rightarrow> xy \<Rightarrow> xy) \<Rightarrow> 'a drag_scheme \<Rightarrow> 'a drag_scheme" where
  "timeoutCheck al d =
     (if \<not> lock d
      then moveNode al (start (d\<lparr>fromTimeout := True, dragThreshMet := True\<rparr>)) (ev_md d) True
      else d)"

subsection \<open>One pointer session\<close>

text \<open>
  What can happen after a pointer-down: a pointer-move, the click timer running
  out (\<open>clickTimeThresh\<close> milliseconds after the pointer-down, unless it was
  cleared), and the pointer-up.  The state is the Drag together with the flag
  telling whether it is \<open>DDM.activeDrag\<close>.  \<open>DDM._move\<close> and \<open>DDM._end\<close> do nothing
  without an active drag; a cleared timer does not call back.
\<close>

datatype pointer_event = MouseMove xy | Timeout | MouseUp

fun dispatch ::
  "('a drag_scheme \<Rightarrow> xy \<Rightarrow> xy) \<Rightarrow> 'a drag_scheme \<times> bool \<Rightarrow> pointer_event
     \<Rightarrow> 'a drag_scheme \<times> bool" where
  "dispatch al (d, active) (MouseMove p) = (if active then (move_ev al d p, active) else (d, active))"
| "dispatch al (d, active) Timeout =
     (if clickTimeout d then (timeoutCheck al (d\<lparr>clickTimeout := False\<rparr>), active)
      else (d, active))"
| "dispatch al (d, active) MouseUp = (if active then (end_drag d, False) else (d, active))"

definition run ::
  "('a drag_scheme \<Rightarrow> xy \<Rightarrow> xy) \<Rightarrow> 'a drag_scheme \<times> bool \<Rightarrow> pointer_event list
     \<Rightarrow> 'a drag_scheme \<times> bool" where
  "run al s es = foldl (dispatch al) s es"

text \<open>
  An event exceeds a threshold when it is a move farther than
  \<open>clickPixelThresh\<close> from the start point on some axis, or the timer callback.
\<close>

fun exceeds :: "'a drag_scheme \<Rightarrow> pointer_event \<Rightarrow> bool" where
  "exceeds d (MouseMove p) =
     (\<bar>fst (startXY d) - fst p\<bar> > clickPixelThresh d \<or>
      \<bar>snd (startXY d) - snd p\<bar> > clickPixelThresh d)"
| "exceeds d Timeout = True"
| "exceeds d MouseUp = False"

fun is_start :: "drag_event \<Rightarrow> bool" where
  "is_start (Ev_start _) = True"
| "is_start _ = False"

fun is_end :: "drag_event \<Rightarrow> bool" where
  "is_end (Ev_end _) = True"
| "is_end _ = False"

definition starts :: "'a drag_scheme \<Rightarrow> nat" where
  "starts d = length (filter is_start (fired d))"

definition ends :: "'a drag_scheme \<Rightarrow> nat" where
  "ends d = length (filter is_end (fired d))"

text \<open>
  The two states of a session that started at \<open>d0\<close>: still a click candidate,
  and promoted to a drag.
\<close>

definition pending :: "'a drag_scheme \<Rightarrow> 'a drag_scheme \<Rightarrow> bool" where
  "pending d0 d \<longleftrightarrow>
     \<not> lock d \<and> \<not> dragThreshMet d \<and> \<not> dragging d \<and> clickTimeout d \<and>
     startXY d = startXY d0 \<and> clickPixelThresh d = clickPixelThresh d0 \<and>
     starts d = starts d0 \<and> ends d = ends d0"

definition promoted :: "'a drag_scheme \<Rightarrow> 'a drag_scheme \<Rightarrow> bool" where
  "promoted d0 d \<longleftrightarrow>
     \<not> lock d \<and> dragThreshMet d \<and> dragging d \<and>
     startXY d = startXY d0 \<and> clickPixelThresh d = clickPixelThresh d0 \<and>
     starts d = starts d0 + 1 \<and> ends d = ends d0"

section \<open>Drop targets and the manager (dd-drop, dd-ddm-drop)\<close>

subsection \<open>Region tests of the DOM layer\<close>

text \<open>
  Modelled from the spec: \<open>Node.intersect\<close> and \<open>Node.inRegion\<close> belong to the
  framework's DOM module, which is not part of this bundle.  The intersection of
  two rectangles is their overlap: \<open>inRegion\<close> tells whether they overlap, and the
  area is that of the overlap, zero for rectangles that do not overlap.
\<close>

record intersection =
  i_area :: int
  i_inRegion :: bool

definition intersect :: "region \<Rightarrow> region \<Rightarrow> intersection" where
  "intersect r1 r2 =
     (let t = max (top_r r1) (top_r r2); r = min (right r1) (right r2);
          b = min (bottom r1) (bottom r2); l = max (left r1) (left r2);
          ov = (b \<ge> t \<and> r \<ge> l)
      in \<lparr>i_area = (if ov then (b - t) * (r - l) else 0), i_inRegion = ov\<rparr>)"

text \<open>
  Modelled from the spec: \<open>Node.inRegion(region, true, altRegion)\<close>, the test that
  the rectangle \<open>r\<close> is entirely inside \<open>region\<close>.
\<close>

definition inRegion_all :: "region \<Rightarrow> region \<Rightarrow> bool" where
  "inRegion_all r reg \<longleftrightarrow>
     left r \<ge> left reg \<and> right r \<le> right reg \<and>
     top_r r \<ge> top_r reg \<and> bottom r \<le> bottom reg"

subsection \<open>The Drop object\<close>

text \<open>
  \<open>yuid\<close> stands for the identity of the object (\<open>!==\<close> compares references).
  \<open>drop_xy\<close>, \<open>drop_w\<close> and \<open>drop_h\<close> are what the Drop's node answers to \<open>getXY()\<close>,
  \<open>get("offsetWidth")\<close> and \<open>get("offsetHeight")\<close>.  \<open>drop_groups\<close> holds the own
  keys of \<open>this._groups\<close>.  \<open>drop_region\<close> is \<open>null\<close> until \<open>sizeShim\<close> has run.
\<close>

record drop =
  yuid :: nat
  drop_node :: nat
  drop_xy :: xy
  drop_w :: int
  drop_h :: int
  drop_groups :: "string list"
  drop_lock :: bool
  padding :: css_sizes
  drop_region :: "region option"
  overTarget :: bool
  valid :: bool

text \<open>
  The manager's registry: the active drag, the registered targets and the drops
  valid for the active drag.  Objects are held by value; an object that a method
  changes is written back wherever the source holds a reference to it.
\<close>

record ddm =
  activeDrag :: "drag option"
  targets :: "drop list"
  validDrops :: "drop list"
  useHash :: bool

text \<open>
  \<open>this._groups[M]\<close> reads a property of a plain object: it finds the own keys,
  whose values are all \<open>true\<close>, and also whatever the object inherits from
  \<open>Object.prototype\<close>.  Which names \<open>Object.prototype\<close> answers with a truthy value
  depends on the engine and on the page, so it is a parameter: \<open>proto M\<close> tells
  whether the inherited property \<open>M\<close> exists and is truthy.
\<close>

definition has_property :: "(string \<Rightarrow> bool) \<Rightarrow> string list \<Rightarrow> string \<Rightarrow> bool" where
  "has_property proto own_keys M \<longleftrightarrow> M \<in> set own_keys \<or> proto M"

text \<open>\<open>inGroup(J)\<close>: the answer \<open>K\<close> and the Drop with \<open>_valid\<close> updated.\<close>

fun inGroup_loop :: "(string \<Rightarrow> bool) \<Rightarrow> string list \<Rightarrow> string list \<Rightarrow> bool \<Rightarrow> bool" where
  "inGroup_loop proto own_keys [] K = K"
| "inGroup_loop proto own_keys (M # J) K =
     inGroup_loop proto own_keys J (if has_property proto own_keys M then True else K)"

definition inGroup :: "(string \<Rightarrow> bool) \<Rightarrow> drop \<Rightarrow> string list \<Rightarrow> bool \<times> drop" where
  "inGroup proto this J =
     (let K = inGroup_loop proto (drop_groups this) J False
      in (K, this\<lparr>valid := K\<rparr>))"

text \<open>\<open>sizeShim()\<close>, called while \<open>D\<close> is the active drag.\<close>

definition sizeShim :: "drag \<Rightarrow> drop \<Rightarrow> drop" where
  "sizeShim D this =
     (let M0 = drop_h this; K0 = drop_w this; Q = drop_xy this; P = padding this;
          K1 = K0 + s_left P + s_right P;
          M1 = M0 + s_top P + s_bottom P;
          Q0 = fst Q - s_left P;
          Q1 = snd Q - s_top P;
          N = node_h D; L = node_w D;
          M2 = (if dragMode D = INTERSECT then M1 + N else M1);
          K2 = (if dragMode D = INTERSECT then K1 + L else K1);
          Q0' = (if dragMode D = INTERSECT then Q0 - (L - fst (deltaXY D)) else Q0);
          Q1' = (if dragMode D = INTERSECT then Q1 - (N - snd (deltaXY D)) else Q1)
      in this\<lparr>drop_region :=
           Some \<lparr>top_r = Q1', right = Q0' + K2, bottom = Q1' + M2, left = Q0', area = 0\<rparr>\<rparr>)"

subsection \<open>Target activation\<close>

definition addValid :: "ddm \<Rightarrow> drop \<Rightarrow> ddm" where
  "addValid m B = m\<lparr>validDrops := validDrops m @ [B]\<rparr>"

definition removeValid :: "ddm \<Rightarrow> drop \<Rightarrow> ddm" where
  "removeValid m B = m\<lparr>validDrops := filter (\<lambda>E. yuid E \<noteq> yuid B) (validDrops m)\<rparr>"

definition clearCache :: "ddm \<Rightarrow> ddm" where
  "clearCache m = m\<lparr>validDrops := []\<rparr>"

text \<open>
  \<open>_activateShim()\<close> of a Drop: the three early returns, then the group test.
  The result is the manager and the Drop as the call leaves them.
\<close>

definition activateShim :: "(string \<Rightarrow> bool) \<Rightarrow> ddm \<Rightarrow> drop \<Rightarrow> ddm \<times> drop" where
  "activateShim proto m this =
     (case activeDrag m of
        None \<Rightarrow> (m, this)
      | Some D \<Rightarrow>
          if drop_node this = node D then (m, this)
          else if drop_lock this then (m, this)
          else
            (let (K, this1) = inGroup proto this (groups D) in
             if K then
               (let this2 = sizeShim D (this1\<lparr>overTarget := False\<rparr>)
                in (addValid m this2, this2))
             else (removeValid m this1, this1)))"

text \<open>
  The loop of \<open>_activateTargets\<close> over \<open>this.targets\<close>, after \<open>clearCache()\<close>.  The
  call of \<open>_handleTargetOver\<close> that ends \<open>_activateTargets\<close> does the hover
  bookkeeping (\<open>activeDrop\<close>, \<open>otherDrops\<close>, \<open>overTarget\<close>) for the drops found by
  \<open>_lookup\<close>; it does not write the registry.
\<close>

fun activateShims :: "(string \<Rightarrow> bool) \<Rightarrow> ddm \<Rightarrow> drop list \<Rightarrow> ddm \<times> drop list" where
  "activateShims proto m [] = (m, [])"
| "activateShims proto m (C # Cs) =
     (let (m1, C') = activateShim proto m C;
          (m2, Cs') = activateShims proto m1 Cs
      in (m2, C' # Cs'))"

definition activateTargets :: "(string \<Rightarrow> bool) \<Rightarrow> ddm \<Rightarrow> ddm" where
  "activateTargets proto m =
     (let (m1, ts) = activateShims proto (clearCache m) (targets m)
      in m1\<lparr>targets := ts\<rparr>)"

text \<open>
  \<open>_lookup()\<close>: the drops that hit-testing visits.  \<open>inViewport\<close> stands for
  \<open>D.shim.inViewportRegion(false, D.region)\<close>, a test of the DOM layer.
\<close>

definition lookup :: "(drop \<Rightarrow> bool) \<Rightarrow> ddm \<Rightarrow> drop list" where
  "lookup inViewport m =
     (if \<not> useHash m then validDrops m else filter inViewport (validDrops m))"

text \<open>Whether a Drop, taken by identity, is among a list of drops.\<close>

definition listed :: "drop \<Rightarrow> drop list \<Rightarrow> bool" where
  "listed B Bs \<longleftrightarrow> yuid B \<in> set (map yuid Bs)"

subsection \<open>Hit testing\<close>

text \<open>
  Calling a method of \<open>null\<close> or writing a property of \<open>null\<close> raises a
  \<open>TypeError\<close>.  \<open>Region_missing\<close> marks a call that hands \<open>null\<close> to the DOM
  layer in place of a region; what the DOM layer does with it is outside this
  bundle.
\<close>

datatype hit_error = TypeError | Region_missing

definition point_region :: "xy \<Rightarrow> region" where
  "point_region C = \<lparr>top_r = snd C, right = fst C, bottom = snd C, left = fst C, area = 0\<rparr>"

text \<open>\<open>isOverTarget(B)\<close>; \<open>None\<close> is a call without a drop.\<close>

definition isOverTarget :: "ddm \<Rightarrow> drop option \<Rightarrow> hit_error + bool" where
  "isOverTarget m B =
     (case (activeDrag m, B) of
        (Some D, Some B') \<Rightarrow>
          (case mouseXY D of
             Some C \<Rightarrow>
               if dragMode D = STRICT then
                 (case (drop_region B', drag_region D) of
                    (Some reg, Some r) \<Rightarrow> Inr (inRegion_all r reg)
                  | _ \<Rightarrow> Inl Region_missing)
               else
                 (case drop_region B' of
                    Some reg \<Rightarrow> Inr (i_inRegion (intersect (point_region C) reg))
                  | None \<Rightarrow> Inl Region_missing)
           | None \<Rightarrow> Inr False)
      | _ \<Rightarrow> Inr False)"

text \<open>
  The rectangles that the DOM reports for the drag node of a Drag and for the
  node of a Drop.
\<close>

definition dragNode_region :: "drag \<Rightarrow> region" where
  "dragNode_region D =
     \<lparr>top_r = snd (node_xy D), right = fst (node_xy D) + dragNode_w D,
      bottom = snd (node_xy D) + dragNode_h D, left = fst (node_xy D), area = 0\<rparr>"

definition drop_node_region :: "drop \<Rightarrow> region" where
  "drop_node_region I =
     \<lparr>top_r = snd (drop_xy I), right = fst (drop_xy I) + drop_w I,
      bottom = snd (drop_xy I) + drop_h I, left = fst (drop_xy I), area = 0\<rparr>"

text \<open>
  The first loop of \<open>getBestMatch(F, D)\<close>, with the running winner \<open>C\<close> and its
  area \<open>E\<close>.  Each candidate gets the area written into its region; the loop
  returns the candidates as it leaves them.
\<close>

fun bestMatch_loop ::
  "drag option \<Rightarrow> drop list \<Rightarrow> drop option \<Rightarrow> int
     \<Rightarrow> hit_error + (drop list \<times> drop option \<times> int)" where
  "bestMatch_loop A [] C E = Inr ([], C, E)"
| "bestMatch_loop A (I # F) C E =
     (case A of
        None \<Rightarrow> Inl TypeError
      | Some D \<Rightarrow>
          (let G = intersect (dragNode_region D) (drop_node_region I) in
           case drop_region I of
             None \<Rightarrow> Inl TypeError
           | Some reg \<Rightarrow>
               (let I' = I\<lparr>drop_region := Some (reg\<lparr>area := i_area G\<rparr>)\<rparr>;
                    C' = (if i_inRegion G \<and> i_area G > E then Some I' else C);
                    E' = (if i_inRegion G \<and> i_area G > E then i_area G else E)
                in case bestMatch_loop A F C' E' of
                     Inl e \<Rightarrow> Inl e
                   | Inr (F', C'', E'') \<Rightarrow> Inr (I' # F', C'', E''))))"

datatype match_result = Winner "drop option" | Winner_and_losers "drop option" "drop list"

text \<open>\<open>H !== C\<close>: every object differs from \<open>null\<close>.\<close>

definition differs :: "drop option \<Rightarrow> drop \<Rightarrow> bool" where
  "differs C H = (case C of None \<Rightarrow> True | Some c \<Rightarrow> yuid H \<noteq> yuid c)"

definition getBestMatch :: "ddm \<Rightarrow> drop list \<Rightarrow> bool \<Rightarrow> hit_error + match_result" where
  "getBestMatch m F D =
     (case bestMatch_loop (activeDrag m) F None 0 of
        Inl e \<Rightarrow> Inl e
      | Inr (F', C, E) \<Rightarrow>
          if D then Inr (Winner_and_losers C (filter (differs C) F'))
          else Inr (Winner C))"

text \<open>
  The intersection area of a candidate with the drag node of \<open>D\<close>, and the
  candidate with that area written into its region.
\<close>

definition overlap_area :: "drag \<Rightarrow> drop \<Rightarrow> int" where
  "overlap_area D I = i_area (intersect (dragNode_region D) (drop_node_region I))"

definition with_area :: "drag \<Rightarrow> drop \<Rightarrow> drop" where
  "with_area D I =
     I\<lparr>drop_region := map_option (\<lambda>reg. reg\<lparr>area := overlap_area D I\<rparr>) (drop_region I)\<rparr>"

text \<open>
  \<open>w\<close> is the first candidate of maximal intersection area in \<open>F\<close>: \<open>F\<close> is
  \<open>pre\<close>, then \<open>w\<close>, then \<open>post\<close>; every candidate before \<open>w\<close> has a smaller area and
  none after it has a larger one.
\<close>

definition first_max :: "drag \<Rightarrow> drop list \<Rightarrow> drop list \<Rightarrow> drop \<Rightarrow> drop list \<Rightarrow> bool" where
  "first_max D F pre w post \<longleftrightarrow>
     F = pre @ w # post \<and>
     (\<forall>x\<in>set pre. overlap_area D x < overlap_area D w) \<and>
     (\<forall>x\<in>set post. overlap_area D x \<le> overlap_area D w)"

section \<open>Concrete objects\<close>

text \<open>Concrete drags used to evaluate the definitions.\<close>

definition base_drag :: drag where
  "base_drag = \<lparr>node = 1, node_xy = (100, 100), node_w = 50, node_h = 50,
     dragNode_w = 50, dragNode_h = 50, lock = False, dragging = False,
     offsetNode = True, move = True, useShim = True, primaryButtonOnly = True,
     clickPixelThresh = 3, clickTimeThresh = 1000, dragMode = POINT, groups = [''default''],
     dragThreshMet = False, fromTimeout = False, clickTimeout = False,
     ev_md = (0, 0), deltaXY = (0, 0), startXY = (0, 0), nodeXY = (0, 0),
     lastXY = (0, 0), mouseXY = None, drag_region = None, fired = []\<rparr>"

definition no_gutter :: css_sizes where
  "no_gutter = \<lparr>s_top = 0, s_right = 0, s_bottom = 0, s_left = 0\<rparr>"

definition rect :: "int \<Rightarrow> int \<Rightarrow> int \<Rightarrow> int \<Rightarrow> region" where
  "rect t r b l = \<lparr>top_r = t, right = r, bottom = b, left = l, area = 0\<rparr>"

definition unconstrained :: drag_constrained where
  "unconstrained = drag.extend base_drag
     \<lparr>stickX = False, stickY = False, tickX = None, tickY = None,
      tickXArray = None, tickYArray = None, constrain2region = None,
      gutter = no_gutter, constrain2node = None, constrain2view = False,
      viewportRegion = rect 0 1000 800 0\<rparr>"

definition region_drag :: "region \<Rightarrow> drag_constrained" where
  "region_drag r = unconstrained\<lparr>constrain2region := Some r\<rparr>"

definition tick_drag :: drag_constrained where
  "tick_drag = (region_drag (rect 10 100 100 10))\<lparr>tickX := Some 10, tickY := Some 10\<rparr>"

definition wide_tick_drag :: drag_constrained where
  "wide_tick_drag = (region_drag (rect 10 100 100 10))\<lparr>tickX := Some 100\<rparr>"

definition node_then_region :: drag_constrained where
  "node_then_region =
     set_constrain2region
       (set_constrain2node unconstrained (Some (rect 100 300 300 100)))
       (Some (rect 10 500 400 20))"

definition region_then_node :: drag_constrained where
  "region_then_node =
     set_constrain2node
       (set_constrain2region unconstrained (Some (rect 10 500 400 20)))
       (Some (rect 100 300 300 100))"

text \<open>The pointer-down of the scenario: primary button, on the node, at \<open>(105, 102)\<close>.\<close>

definition down_105_102 :: mouse_event where
  "down_105_102 = \<lparr>pageXY = (105, 102), button = 0, valid_target = True\<rparr>"

text \<open>
  A drag whose drag node covers \<open>{top: 50, left: 50, right: 150, bottom: 150}\<close>, and
  drops: \<open>drop_A\<close> and \<open>drop_A2\<close> on \<open>{top: 0, left: 0, right: 100, bottom: 100}\<close>,
  \<open>drop_B\<close> far away, \<open>drop_C\<close> around the drag node.
\<close>

definition drag_50 :: drag where
  "drag_50 = base_drag\<lparr>node_xy := (50, 50), node_w := 100, node_h := 100,
     dragNode_w := 100, dragNode_h := 100, groups := [''a''],
     mouseXY := Some (60, 60), drag_region := Some (rect 50 150 150 50)\<rparr>"

definition drop_A :: drop where
  "drop_A = \<lparr>yuid = 1, drop_node = 11, drop_xy = (0, 0), drop_w = 100, drop_h = 100,
     drop_groups = [''a''], drop_lock = False, padding = no_gutter,
     drop_region = Some (rect 0 100 100 0), overTarget = False, valid = False\<rparr>"

definition drop_A2 :: drop where
  "drop_A2 = drop_A\<lparr>yuid := 2, drop_node := 12\<rparr>"

definition drop_B :: drop where
  "drop_B = \<lparr>yuid = 3, drop_node = 13, drop_xy = (500, 500), drop_w = 50, drop_h = 50,
     drop_groups = [''b''], drop_lock = False, padding = no_gutter,
     drop_region = Some (rect 500 550 550 500), overTarget = False, valid = False\<rparr>"

definition drop_C :: drop where
  "drop_C = \<lparr>yuid = 4, drop_node = 14, drop_xy = (40, 40), drop_w = 200, drop_h = 200,
     drop_groups = [''a'', ''b''], drop_lock = False, padding = no_gutter,
     drop_region = Some (rect 40 240 240 40), overTarget = False, valid = False\<rparr>"

definition ddm_of :: "drag option \<Rightarrow> drop list \<Rightarrow> ddm" where
  "ddm_of A ts = \<lparr>activeDrag = A, targets = ts, validDrops = [], useHash = False\<rparr>"

text \<open>
  A Drop is eligible for the active drag \<open>D\<close> when \<open>_activateShim\<close> passes its
  early returns and \<open>inGroup\<close> answers true.
\<close>

definition eligible :: "(string \<Rightarrow> bool) \<Rightarrow> drag \<Rightarrow> drop \<Rightarrow> bool" where
  "eligible proto D P \<longleftrightarrow>
     drop_node P \<noteq> node D \<and> \<not> drop_lock P \<and> fst (inGroup proto P (groups D))"

text \<open>
  The truthy members of \<open>Object.prototype\<close> in one engine: those of the language
  standard and the legacy accessor names.  It serves to evaluate examples; the
  theorems hold for every \<open>proto\<close>.
\<close>

definition engine_proto :: "string \<Rightarrow> bool" where
  "engine_proto M \<longleftrightarrow>
     M \<in> set [''constructor'', ''toString'', ''toLocaleString'', ''valueOf'',
       ''hasOwnProperty'', ''isPrototypeOf'', ''propertyIsEnumerable'', ''__proto__'',
       ''__defineGetter__'', ''__defineSetter__'', ''__lookupGetter__'',
       ''__lookupSetter__'']"

definition drop_locked :: drop where
  "drop_locked = drop_A\<lparr>yuid := 5, drop_node := 15, drop_lock := True\<rparr>"

definition drop_self :: drop where
  "drop_self = drop_A\<lparr>yuid := 6, drop_node := 1\<rparr>"

section \<open>Region clamping\<close>

lemma region_source_region_drag [simp]: "region_source (region_drag r) = Some r"
  by (simp add: region_source_def region_drag_def unconstrained_def drag.extend_def)

lemma dragNode_region_drag [simp]:
  "dragNode_w (region_drag r) = 50" "dragNode_h (region_drag r) = 50"
  by (simp_all add: region_drag_def unconstrained_def drag.extend_def base_drag_def)

lemma gutter_region_drag [simp]: "gutter (region_drag r) = no_gutter"
  by (simp add: region_drag_def unconstrained_def drag.extend_def)

lemma rect_sel [simp]:
  "top_r (rect t r b l) = t" "right (rect t r b l) = r"
  "bottom (rect t r b l) = b" "left (rect t r b l) = l" "area (rect t r b l) = 0"
  by (simp_all add: rect_def)

lemma getRegion_region_drag:
  "getRegion (region_drag (rect t r b l)) False = Some (rect t r b l)"
  "getRegion (region_drag (rect t r b l)) True = Some (rect t (r - 50) (b - 50) l)"
  by (simp_all add: getRegion_def apply_gutter_def no_gutter_def rect_def)

lemma checkRegion_fixed:
  assumes "getRegion d False = Some J"
    and "left J \<le> fst p" and "fst p \<le> right J - dragNode_w d"
    and "top_r J \<le> snd p" and "snd p \<le> bottom J - dragNode_h d"
  shows "checkRegion d p = p"
  using assms by (cases p) (simp add: checkRegion_def Let_def)

lemma checkRegion_idem: "checkRegion d (checkRegion d p) = checkRegion d p"
  by (cases "getRegion d False") (auto simp: checkRegion_def Let_def)

lemma checkRegion_inside:
  assumes "getRegion d False = Some J"
    and "dragNode_w d \<le> right J - left J"
    and "dragNode_h d \<le> bottom J - top_r J"
  shows "node_inside d J (checkRegion d p)"
  using assms by (simp add: checkRegion_def node_inside_def Let_def)

lemma checkRegion_small_x:
  assumes "getRegion d False = Some J" and "right J - left J < dragNode_w d"
  shows "fst (checkRegion d p) = right J - dragNode_w d"
  using assms by (simp add: checkRegion_def Let_def)

lemma checkRegion_small_y:
  assumes "getRegion d False = Some J" and "bottom J - top_r J < dragNode_h d"
  shows "snd (checkRegion d p) = bottom J - dragNode_h d"
  using assms by (simp add: checkRegion_def Let_def)

text \<open>
  C7 (as amended).  Clamping leaves a position inside
  \<open>[regionMin, regionMax - nodeExtent]\<close> unchanged and is idempotent on every
  position.  The clamped position keeps the node inside the constrained area when
  the area is at least as large as the node on both axes; on an axis where the
  area is smaller than the node, the position is \<open>regionMax - nodeExtent\<close>, which
  is below \<open>regionMin\<close>.
\<close>

theorem C7_checkRegion_clamp:
  "checkRegion d (checkRegion d p) = checkRegion d p \<and>
   (\<forall>J. getRegion d False = Some J \<longrightarrow>
      (left J \<le> fst p \<and> fst p \<le> right J - dragNode_w d \<and>
       top_r J \<le> snd p \<and> snd p \<le> bottom J - dragNode_h d
         \<longrightarrow> checkRegion d p = p) \<and>
      (dragNode_w d \<le> right J - left J \<and> dragNode_h d \<le> bottom J - top_r J
         \<longrightarrow> node_inside d J (checkRegion d p)) \<and>
      (right J - left J < dragNode_w d
         \<longrightarrow> fst (checkRegion d p) = right J - dragNode_w d
             \<and> fst (checkRegion d p) < left J) \<and>
      (bottom J - top_r J < dragNode_h d
         \<longrightarrow> snd (checkRegion d p) = bottom J - dragNode_h d
             \<and> snd (checkRegion d p) < top_r J))"
proof (intro conjI allI impI)
  show "checkRegion d (checkRegion d p) = checkRegion d p"
    by (rule checkRegion_idem)
next
  fix J
  assume J: "getRegion d False = Some J"
  {
    assume "left J \<le> fst p \<and> fst p \<le> right J - dragNode_w d \<and>
            top_r J \<le> snd p \<and> snd p \<le> bottom J - dragNode_h d"
    then show "checkRegion d p = p" using J by (simp add: checkRegion_fixed)
  next
    assume "dragNode_w d \<le> right J - left J \<and> dragNode_h d \<le> bottom J - top_r J"
    then show "node_inside d J (checkRegion d p)" using J by (simp add: checkRegion_inside)
  next
    assume small: "right J - left J < dragNode_w d"
    then show "fst (checkRegion d p) = right J - dragNode_w d"
      using J by (rule checkRegion_small_x [rotated])
    with small show "fst (checkRegion d p) < left J" by simp
  next
    assume small: "bottom J - top_r J < dragNode_h d"
    then show "snd (checkRegion d p) = bottom J - dragNode_h d"
      using J by (rule checkRegion_small_y [rotated])
    with small show "snd (checkRegion d p) < top_r J" by simp
  }
qed

theorem C7_checkRegion_clamp_witness:
  "getRegion (region_drag (rect 10 500 400 20)) False = Some (rect 10 500 400 20) \<and>
   checkRegion (region_drag (rect 10 500 400 20)) (30, 40) = (30, 40) \<and>
   node_inside (region_drag (rect 10 500 400 20)) (rect 10 500 400 20)
     (checkRegion (region_drag (rect 10 500 400 20)) (30, 40)) \<and>
   getRegion (region_drag (rect 10 20 20 10)) False = Some (rect 10 20 20 10) \<and>
   checkRegion (region_drag (rect 10 20 20 10)) (0, 0) = (-30, -30)"
  using C7_checkRegion_clamp [of "region_drag (rect 10 500 400 20)" "(30, 40)"]
        C7_checkRegion_clamp [of "region_drag (rect 10 20 20 10)" "(0, 0)"]
  by (simp add: getRegion_region_drag checkRegion_def)

text \<open>
  A constrained area of 10 by 10 pixels and a node of 50 by 50: the clamped
  position is \<open>(-30, -30)\<close> and the node is not inside the area.
\<close>

theorem C7_small_region_counterexample:
  "getRegion (region_drag (rect 10 20 20 10)) False = Some (rect 10 20 20 10) \<and>
   checkRegion (region_drag (rect 10 20 20 10)) (0, 0) = (-30, -30) \<and>
   \<not> node_inside (region_drag (rect 10 20 20 10)) (rect 10 20 20 10)
       (checkRegion (region_drag (rect 10 20 20 10)) (0, 0))"
  by (simp add: getRegion_region_drag checkRegion_def node_inside_def)

section \<open>Tick snapping\<close>

lemma calcTicks_simp:
  "J \<noteq> 0 \<Longrightarrow> calcTicks N M J L K =
     (let I = (N - M) div J in
      if N \<noteq> M then
        (let N1 = M + J * I in
         if truthy L \<and> truthy K then
           (let N2 = (if N1 < the L then M + J * (I + 1) else N1);
                N3 = (if N2 > the K then M + J * (I - 1) else N2)
            in N3)
         else N1)
      else N)"
proof -
  assume J: "J \<noteq> 0"
  define H where "H = real_of_int (N - M) / real_of_int J"
  have fl: "\<lfloor>H\<rfloor> = (N - M) div J" unfolding H_def by (rule floor_divide_of_int_eq)
  have le: "real_of_int \<lfloor>H\<rfloor> \<le> H \<and> H \<le> real_of_int \<lceil>H\<rceil>" by simp
  have z: "(\<lfloor>H\<rfloor> \<noteq> 0 \<or> \<lceil>H\<rceil> \<noteq> 0) \<longleftrightarrow> N \<noteq> M"
  proof
    assume "\<lfloor>H\<rfloor> \<noteq> 0 \<or> \<lceil>H\<rceil> \<noteq> 0"
    then have "H \<noteq> 0" by auto
    then show "N \<noteq> M" by (auto simp: H_def)
  next
    assume "N \<noteq> M"
    then have "H \<noteq> 0" using J by (simp add: H_def)
    then show "\<lfloor>H\<rfloor> \<noteq> 0 \<or> \<lceil>H\<rceil> \<noteq> 0"
      by (metis le of_int_0 order_antisym)
  qed
  show ?thesis
    unfolding calcTicks_def H_def [symmetric] Let_def using fl le z by simp
qed

lemma calcTicks_bounds:
  assumes J: "0 < J" and l: "l \<noteq> 0" and k: "k \<noteq> 0"
    and N: "l \<le> N" "N \<le> k" and wide: "J \<le> k - l"
  shows "l \<le> calcTicks N M J (Some l) (Some k) \<and> calcTicks N M J (Some l) (Some k) \<le> k"
proof -
  define I where "I = (N - M) div J"
  have eq: "N - M = J * I + (N - M) mod J" by (simp add: I_def)
  have m: "0 \<le> (N - M) mod J" "(N - M) mod J < J" using J by simp_all
  have lo: "M + J * I \<le> N" using eq m by linarith
  have hi: "N < M + J * I + J" using eq m by linarith
  have e1: "J * (I + 1) = J * I + J" by (simp add: algebra_simps)
  have e2: "J * (I - 1) = J * I - J" by (simp add: algebra_simps)
  have "calcTicks N M J (Some l) (Some k) =
     (if N \<noteq> M then
        (let N1 = M + J * I;
             N2 = (if N1 < l then M + J * (I + 1) else N1);
             N3 = (if N2 > k then M + J * (I - 1) else N2)
         in N3)
      else N)"
    using J l k by (simp add: calcTicks_simp truthy_def I_def Let_def)
  then show ?thesis
    using lo hi N wide J unfolding Let_def e1 e2 by (auto split: if_splits)
qed

lemma tickLoop_end: "\<not> H < length P \<Longrightarrow> tickLoop O' P N K H = P ! (length P - 1)"
  by (subst tickLoop.simps) simp

lemma tickLoop_skip:
  "H < length P \<Longrightarrow> \<not> (H + 1 < length P \<and> P ! (H + 1) \<noteq> 0 \<and> P ! (H + 1) \<ge> O') \<Longrightarrow>
   tickLoop O' P N K H = tickLoop O' P N K (H + 1)"
  by (subst tickLoop.simps) (simp only: Let_def if_True if_False)

lemma tickLoop_mem:
  "P \<noteq> [] \<Longrightarrow> tickLoop O' P N K H \<in> set P"
proof (induction O' P N K H rule: tickLoop.induct)
  case (1 O' P N K H)
  show ?case
  proof (cases "H < length P")
    case False
    then show ?thesis using "1.prems" by (subst tickLoop.simps) simp
  next
    case True
    show ?thesis
    proof (cases "H + 1 < length P \<and> P ! (H + 1) \<noteq> 0 \<and> P ! (H + 1) \<ge> O'")
      case False
      then show ?thesis using True "1.IH" "1.prems"
        by (subst tickLoop.simps) (auto simp: Let_def)
    next
      case found: True
      then show ?thesis using True "1.prems"
        by (subst tickLoop.simps) (auto simp: Let_def)
    qed
  qed
qed

lemma calcTickArray_mem: "P \<noteq> [] \<Longrightarrow> calcTickArray O' P N K \<in> set P"
  by (simp add: calcTickArray_def tickLoop_mem)

lemma tickLoop_upper:
  assumes "\<forall>x\<in>set P. x \<noteq> 0" and "truthy N" and "K = Some k" and "k \<noteq> 0"
    and "O' \<le> k" and "H < length P" and "P ! H < O'"
  shows "tickLoop O' P N K H \<le> k"
  using assms
proof (induction O' P N K H rule: tickLoop.induct)
  case (1 O' P N K H)
  have nz: "P ! H \<noteq> 0" using "1.prems" by simp
  show ?case
  proof (cases "H + 1 < length P \<and> P ! (H + 1) \<noteq> 0 \<and> P ! (H + 1) \<ge> O'")
    case found: True
    then show ?thesis using "1.prems" nz
      by (subst tickLoop.simps) (auto simp: Let_def truthy_def)
  next
    case False
    show ?thesis
    proof (cases "H + 1 < length P")
      case True
      then have "P ! (H + 1) \<noteq> 0" using "1.prems"(1) by simp
      with False True have lt: "P ! (H + 1) < O'" by auto
      have "tickLoop O' P N K (H + 1) \<le> k"
        using "1.IH" [OF _ refl] "1.prems" False True lt by auto
      then show ?thesis using False "1.prems" by (subst tickLoop.simps) (auto simp: Let_def)
    next
      case last: False
      then have H: "H = length P - 1" using "1.prems" by simp
      have "tickLoop O' P N K H = tickLoop O' P N K (H + 1)"
        using "1.prems"(6) False by (rule tickLoop_skip)
      also have "\<dots> = P ! (length P - 1)" using last by (simp add: tickLoop_end)
      finally show ?thesis using H "1.prems" by simp
    qed
  qed
qed

lemma clamp_bounds:
  assumes "getRegion d True = Some R"
  shows "fst (clamp d q) \<le> right R \<and> snd (clamp d q) \<le> bottom R \<and>
         (left R \<le> right R \<longrightarrow> left R \<le> fst (clamp d q)) \<and>
         (top_r R \<le> bottom R \<longrightarrow> top_r R \<le> snd (clamp d q))"
  using assms
  by (auto simp: clamp_def checkRegion_def getRegion_def Let_def split: option.splits)

lemma checkTicks_x:
  assumes "tickX d = Some t" and "t \<noteq> 0" and "tickXArray d = None"
  shows "fst (checkTicks d L J) =
     calcTicks (fst L) (fst (startXY d) - fst (deltaXY d)) t (map_option left J) (map_option right J)"
  using assms by (simp add: checkTicks_def truthy_def Let_def)

lemma checkTicks_y:
  assumes "tickY d = Some t" and "t \<noteq> 0" and "tickYArray d = None"
  shows "snd (checkTicks d L J) =
     calcTicks (snd L) (snd (startXY d) - snd (deltaXY d)) t (map_option top_r J) (map_option bottom J)"
  using assms by (simp add: checkTicks_def truthy_def Let_def)

lemma align_c_x_bounds:
  assumes R: "getRegion d True = Some R" and t: "tickX d = Some t" "0 < t"
    and arr: "tickXArray d = None" and nz: "left R \<noteq> 0" "right R \<noteq> 0"
    and wide: "t \<le> right R - left R"
  shows "left R \<le> fst (align_c d p) \<and> fst (align_c d p) \<le> right R"
proof -
  let ?q = "clamp d (stick d (align d p))"
  have le: "left R \<le> right R" using t wide by simp
  have q: "left R \<le> fst ?q" "fst ?q \<le> right R"
    using clamp_bounds [OF R, of "stick d (align d p)"] le by simp_all
  have "fst (align_c d p) =
      calcTicks (fst ?q) (fst (startXY d) - fst (deltaXY d)) t (Some (left R)) (Some (right R))"
    using t arr R by (simp add: align_c_def checkTicks_x)
  then show ?thesis
    using calcTicks_bounds [OF t(2) nz q wide] by simp
qed

lemma align_c_y_bounds:
  assumes R: "getRegion d True = Some R" and t: "tickY d = Some t" "0 < t"
    and arr: "tickYArray d = None" and nz: "top_r R \<noteq> 0" "bottom R \<noteq> 0"
    and wide: "t \<le> bottom R - top_r R"
  shows "top_r R \<le> snd (align_c d p) \<and> snd (align_c d p) \<le> bottom R"
proof -
  let ?q = "clamp d (stick d (align d p))"
  have le: "top_r R \<le> bottom R" using t wide by simp
  have q: "top_r R \<le> snd ?q" "snd ?q \<le> bottom R"
    using clamp_bounds [OF R, of "stick d (align d p)"] le by simp_all
  have "snd (align_c d p) =
      calcTicks (snd ?q) (snd (startXY d) - snd (deltaXY d)) t (Some (top_r R)) (Some (bottom R))"
    using t arr R by (simp add: align_c_def checkTicks_y)
  then show ?thesis
    using calcTicks_bounds [OF t(2) nz q wide] by simp
qed

lemma calcTickArray_upper:
  assumes "P \<noteq> []" and "\<forall>x\<in>set P. x \<noteq> 0" and "truthy N" and "k \<noteq> 0"
    and "O' \<le> k" and "hd P < O'"
  shows "calcTickArray O' P N (Some k) \<le> k"
proof -
  have "P ! 0 = hd P" using assms(1) by (simp add: hd_conv_nth)
  then show ?thesis
    using assms tickLoop_upper [of P N "Some k" k O' 0]
    by (simp add: calcTickArray_def)
qed

lemma tick_drag_simps [simp]:
  "getRegion tick_drag True = Some (rect 10 50 50 10)"
  "tickX tick_drag = Some 10" "tickY tick_drag = Some 10"
  "tickXArray tick_drag = None" "tickYArray tick_drag = None"
  "startXY tick_drag = (0, 0)" "deltaXY tick_drag = (0, 0)"
  "stickX tick_drag = False" "stickY tick_drag = False"
  by (simp_all add: tick_drag_def getRegion_def region_source_def region_drag_def
      unconstrained_def drag.extend_def base_drag_def apply_gutter_def no_gutter_def rect_def)

lemma wide_tick_drag_simps [simp]:
  "getRegion wide_tick_drag True = Some (rect 10 50 50 10)"
  "getRegion wide_tick_drag False = Some (rect 10 100 100 10)"
  "tickX wide_tick_drag = Some 100" "tickY wide_tick_drag = None"
  "tickXArray wide_tick_drag = None" "tickYArray wide_tick_drag = None"
  "startXY wide_tick_drag = (0, 0)" "deltaXY wide_tick_drag = (0, 0)"
  "stickX wide_tick_drag = False" "stickY wide_tick_drag = False"
  "dragNode_w wide_tick_drag = 50" "dragNode_h wide_tick_drag = 50"
  by (simp_all add: wide_tick_drag_def getRegion_def region_source_def region_drag_def
      unconstrained_def drag.extend_def base_drag_def apply_gutter_def no_gutter_def rect_def)


text \<open>
  C5 (as amended).  A snapped position stays inside the region bounds only under
  conditions.  \<open>_calcTicks\<close>: for a positive tick interval, bounds that are both
  non-zero, an input position already inside the bounds and a region at least one
  tick wide, the result is inside the bounds.  \<open>_calcTickArray\<close>: for a non-empty
  array the result is one of the ticks; it respects the upper bound when the ticks
  and bounds are non-zero, the position is not above the upper bound and the first
  tick is below the position; the lower bound is never consulted.  In the
  constrained \<open>_align\<close> the position given to tick snapping is the clamped one,
  so with a region and a tick interval as above the aligned position is inside the
  bounds of \<open>getRegion(true)\<close> on that axis.
\<close>

theorem C5_tick_snapping:
  "(0 < J \<and> l \<noteq> 0 \<and> k \<noteq> 0 \<and> l \<le> N \<and> N \<le> k \<and> J \<le> k - l \<longrightarrow>
      l \<le> calcTicks N M J (Some l) (Some k) \<and> calcTicks N M J (Some l) (Some k) \<le> k) \<and>
   (P \<noteq> [] \<longrightarrow> calcTickArray O' P N' K' \<in> set P) \<and>
   (P \<noteq> [] \<and> (\<forall>x\<in>set P. x \<noteq> 0) \<and> truthy N' \<and> k \<noteq> 0 \<and> O' \<le> k \<and> hd P < O' \<longrightarrow>
      calcTickArray O' P N' (Some k) \<le> k) \<and>
   checkTicks d (clamp d (stick d (align d p))) (getRegion d True) = align_c d p \<and>
   (\<forall>R t. getRegion d True = Some R \<and> tickX d = Some t \<and> 0 < t \<and> tickXArray d = None \<and>
      left R \<noteq> 0 \<and> right R \<noteq> 0 \<and> t \<le> right R - left R \<longrightarrow>
      left R \<le> fst (align_c d p) \<and> fst (align_c d p) \<le> right R) \<and>
   (\<forall>R t. getRegion d True = Some R \<and> tickY d = Some t \<and> 0 < t \<and> tickYArray d = None \<and>
      top_r R \<noteq> 0 \<and> bottom R \<noteq> 0 \<and> t \<le> bottom R - top_r R \<longrightarrow>
      top_r R \<le> snd (align_c d p) \<and> snd (align_c d p) \<le> bottom R)"
proof (intro conjI)
  show "0 < J \<and> l \<noteq> 0 \<and> k \<noteq> 0 \<and> l \<le> N \<and> N \<le> k \<and> J \<le> k - l \<longrightarrow>
      l \<le> calcTicks N M J (Some l) (Some k) \<and> calcTicks N M J (Some l) (Some k) \<le> k"
    using calcTicks_bounds [of J l k N M] by blast
  show "P \<noteq> [] \<longrightarrow> calcTickArray O' P N' K' \<in> set P"
    by (simp add: calcTickArray_mem)
  show "P \<noteq> [] \<and> (\<forall>x\<in>set P. x \<noteq> 0) \<and> truthy N' \<and> k \<noteq> 0 \<and> O' \<le> k \<and> hd P < O' \<longrightarrow>
      calcTickArray O' P N' (Some k) \<le> k"
    using calcTickArray_upper [of P N' k O'] by blast
  show "checkTicks d (clamp d (stick d (align d p))) (getRegion d True) = align_c d p"
    by (simp add: align_c_def)
  show "\<forall>R t. getRegion d True = Some R \<and> tickX d = Some t \<and> 0 < t \<and> tickXArray d = None \<and>
      left R \<noteq> 0 \<and> right R \<noteq> 0 \<and> t \<le> right R - left R \<longrightarrow>
      left R \<le> fst (align_c d p) \<and> fst (align_c d p) \<le> right R"
    using align_c_x_bounds [of d _ _ p] by blast
  show "\<forall>R t. getRegion d True = Some R \<and> tickY d = Some t \<and> 0 < t \<and> tickYArray d = None \<and>
      top_r R \<noteq> 0 \<and> bottom R \<noteq> 0 \<and> t \<le> bottom R - top_r R \<longrightarrow>
      top_r R \<le> snd (align_c d p) \<and> snd (align_c d p) \<le> bottom R"
    using align_c_y_bounds [of d _ _ p] by blast
qed

theorem C5_tick_snapping_witness:
  "10 \<le> calcTicks 37 0 10 (Some 10) (Some 50) \<and> calcTicks 37 0 10 (Some 10) (Some 50) \<le> 50 \<and>
   calcTickArray 30 [20, 40] (Some 10) (Some 50) \<in> set [20, 40] \<and>
   calcTickArray 30 [20, 40] (Some 10) (Some 50) \<le> 50 \<and>
   getRegion tick_drag True = Some (rect 10 50 50 10) \<and>
   10 \<le> fst (align_c tick_drag (35, 37)) \<and> fst (align_c tick_drag (35, 37)) \<le> 50 \<and>
   10 \<le> snd (align_c tick_drag (35, 37)) \<and> snd (align_c tick_drag (35, 37)) \<le> 50"
  using C5_tick_snapping [where J = 10 and l = 10 and k = 50 and N = 37 and M = 0
      and P = "[20, 40]" and O' = 30 and N' = "Some 10" and K' = "Some 50"
      and d = tick_drag and p = "(35, 37)"]
  by (simp add: truthy_def)

text \<open>
  A region whose bounds for the node position are \<open>[10, 50]\<close> and a tick interval
  of \<open>100\<close> counted from \<open>0\<close>: the position \<open>30\<close> is snapped to \<open>-100\<close>.  The tick
  array \<open>[100]\<close> sends \<open>30\<close> to \<open>100\<close>, above the upper bound, and \<open>[1, 100]\<close>
  sends it to \<open>1\<close>, below the lower bound.
\<close>

theorem C5_wide_tick_counterexample:
  "getRegion wide_tick_drag True = Some (rect 10 50 50 10) \<and>
   align_c wide_tick_drag (30, 30) = (-100, 30) \<and>
   calcTicks 30 0 100 (Some 10) (Some 50) = -100 \<and>
   calcTickArray 30 [100] (Some 10) (Some 50) = 100 \<and>
   calcTickArray 30 [1, 100] (Some 10) (Some 50) = 1"
  by (simp add: align_c_def checkTicks_def clamp_def checkRegion_def stick_def align_def
      calcTicks_simp truthy_def calcTickArray_def tickLoop.simps)


section \<open>The source of the constraint region\<close>

lemma getRegion_none:
  assumes "constrain2node d = None" "constrain2region d = None" "\<not> constrain2view d"
  shows "getRegion d K = None"
  using assms by (simp add: getRegion_def region_source_def)

lemma region_source_node: "constrain2node d = Some n \<Longrightarrow> region_source d = Some n"
  by (simp add: region_source_def)

lemma region_source_region:
  "constrain2node d = None \<Longrightarrow> constrain2region d = Some r \<Longrightarrow> region_source d = Some r"
  by (simp add: region_source_def)

lemma region_source_view:
  "constrain2node d = None \<Longrightarrow> constrain2region d = None \<Longrightarrow> constrain2view d \<Longrightarrow>
   region_source d = Some (viewportRegion d)"
  by (simp add: region_source_def)

lemma getRegion_source:
  "region_source d = Some I \<Longrightarrow> getRegion d False = Some (apply_gutter (gutter d) I)"
  by (simp add: getRegion_def)

lemma set_node_after_region:
  assumes "constrain2region d = Some r"
  shows "constrain2node (set_constrain2node d H) = None"
    and "region_source (set_constrain2node d H) = Some r"
  using assms by (simp_all add: set_constrain2node_def constrain2node_setter_def region_source_def)

lemma set_node_no_region:
  assumes "constrain2region d = None"
  shows "region_source (set_constrain2node d (Some n)) = Some n"
  using assms by (simp add: set_constrain2node_def constrain2node_setter_def region_source_def)

lemma set_region_after_node:
  assumes "constrain2node d = Some n"
  shows "region_source (set_constrain2region d C) = Some n"
  using assms by (simp add: set_constrain2region_def region_source_def)

lemma checkTicks_no_ticks:
  assumes "tickX d = None" "tickY d = None" "tickXArray d = None" "tickYArray d = None"
  shows "checkTicks d L J = L"
  using assms by (simp add: checkTicks_def truthy_def)

lemma align_c_unconstrained:
  assumes "getRegion d True = None"
  shows "align_c d p = checkTicks d (stick d (align d p)) None"
  using assms by (simp add: align_c_def clamp_def)

lemma align_c_plain:
  assumes "getRegion d True = None" "\<not> stickX d" "\<not> stickY d"
    "tickX d = None" "tickY d = None" "tickXArray d = None" "tickYArray d = None"
  shows "align_c d p = align d p"
  using assms by (simp add: align_c_unconstrained checkTicks_no_ticks stick_def)

text \<open>
  C6 (as amended).  \<open>getRegion\<close> takes the region of the stored \<open>constrain2node\<close>
  first, else the stored \<open>constrain2region\<close> rectangle, else the viewport when
  \<open>constrain2view\<close> is set.  With none of the three stored it reports no region,
  \<open>_checkRegion\<close> returns the position as it came and \<open>_align\<close> applies no clamp
  (with no axis lock and no ticks it is the plain pointer-minus-offset position).
  A rectangle wins over a node only through the setter of \<open>constrain2node\<close>: a node
  set while a rectangle is stored is discarded, so a rectangle configured before
  the node wins; a node configured while no rectangle is stored is kept, and it
  keeps winning over a rectangle configured afterwards.
\<close>

theorem C6_region_priority:
  "(\<forall>n. constrain2node d = Some n \<longrightarrow>
      getRegion d False = Some (apply_gutter (gutter d) n)) \<and>
   (\<forall>r. constrain2node d = None \<and> constrain2region d = Some r \<longrightarrow>
      getRegion d False = Some (apply_gutter (gutter d) r)) \<and>
   (constrain2node d = None \<and> constrain2region d = None \<and> constrain2view d \<longrightarrow>
      getRegion d False = Some (apply_gutter (gutter d) (viewportRegion d))) \<and>
   (constrain2node d = None \<and> constrain2region d = None \<and> \<not> constrain2view d \<longrightarrow>
      getRegion d K = None \<and> checkRegion d p = p \<and>
      checkTicks d (stick d (align d p)) None = align_c d p \<and>
      (\<not> stickX d \<and> \<not> stickY d \<and> tickX d = None \<and> tickY d = None \<and>
       tickXArray d = None \<and> tickYArray d = None \<longrightarrow> align_c d p = align d p)) \<and>
   (\<forall>r. constrain2region d = Some r \<longrightarrow>
      constrain2node (set_constrain2node d H) = None \<and>
      region_source (set_constrain2node d H) = Some r) \<and>
   (\<forall>n. constrain2region d = None \<longrightarrow>
      region_source (set_constrain2node d (Some n)) = Some n) \<and>
   (\<forall>n. constrain2node d = Some n \<longrightarrow>
      region_source (set_constrain2region d C) = Some n)"
proof (intro conjI allI impI)
  fix n assume "constrain2node d = Some n"
  then show "getRegion d False = Some (apply_gutter (gutter d) n)"
    by (simp add: getRegion_source region_source_node)
next
  fix r assume "constrain2node d = None \<and> constrain2region d = Some r"
  then show "getRegion d False = Some (apply_gutter (gutter d) r)"
    by (simp add: getRegion_source region_source_region)
next
  assume "constrain2node d = None \<and> constrain2region d = None \<and> constrain2view d"
  then show "getRegion d False = Some (apply_gutter (gutter d) (viewportRegion d))"
    by (simp add: getRegion_source region_source_view)
next
  assume none: "constrain2node d = None \<and> constrain2region d = None \<and> \<not> constrain2view d"
  then have g: "getRegion d K' = None" for K' by (simp add: getRegion_none)
  show "getRegion d K = None" by (rule g)
  show "checkRegion d p = p" by (simp add: checkRegion_def g)
  show "checkTicks d (stick d (align d p)) None = align_c d p"
    by (simp add: align_c_unconstrained g)
  assume "\<not> stickX d \<and> \<not> stickY d \<and> tickX d = None \<and> tickY d = None \<and>
       tickXArray d = None \<and> tickYArray d = None"
  then show "align_c d p = align d p" by (simp add: align_c_plain g)
next
  fix r assume r: "constrain2region d = Some r"
  show "constrain2node (set_constrain2node d H) = None" by (rule set_node_after_region(1) [OF r])
  show "region_source (set_constrain2node d H) = Some r" by (rule set_node_after_region(2) [OF r])
next
  fix n assume "constrain2region d = None"
  then show "region_source (set_constrain2node d (Some n)) = Some n" by (rule set_node_no_region)
next
  fix n assume "constrain2node d = Some n"
  then show "region_source (set_constrain2region d C) = Some n" by (rule set_region_after_node)
qed

lemma unconstrained_simps [simp]:
  "constrain2node unconstrained = None" "constrain2region unconstrained = None"
  "constrain2view unconstrained = False" "stickX unconstrained = False"
  "stickY unconstrained = False" "tickX unconstrained = None" "tickY unconstrained = None"
  "tickXArray unconstrained = None" "tickYArray unconstrained = None"
  "gutter unconstrained = no_gutter" "deltaXY unconstrained = (0, 0)"
  by (simp_all add: unconstrained_def drag.extend_def base_drag_def)

lemma apply_no_gutter [simp]: "apply_gutter no_gutter r = r"
  by (simp add: apply_gutter_def no_gutter_def)

lemma region_then_node_simps [simp]:
  "constrain2region region_then_node = Some (rect 10 500 400 20)"
  "constrain2node region_then_node = None"
  "gutter region_then_node = no_gutter"
  by (simp_all add: region_then_node_def set_constrain2node_def set_constrain2region_def
      constrain2region_setter_def constrain2node_setter_def)

lemma node_then_region_simps [simp]:
  "constrain2region node_then_region = Some (rect 10 500 400 20)"
  "constrain2node node_then_region = Some (rect 100 300 300 100)"
  "gutter node_then_region = no_gutter"
  by (simp_all add: node_then_region_def set_constrain2node_def set_constrain2region_def
      constrain2region_setter_def constrain2node_setter_def)

theorem C6_region_priority_witness:
  "getRegion node_then_region False = Some (rect 100 300 300 100) \<and>
   getRegion region_then_node False = Some (rect 10 500 400 20) \<and>
   getRegion (set_constrain2view unconstrained True) False =
     Some (viewportRegion (set_constrain2view unconstrained True)) \<and>
   getRegion unconstrained True = None \<and> checkRegion unconstrained (7, 9) = (7, 9) \<and>
   align_c unconstrained (7, 9) = (7, 9) \<and>
   constrain2node (set_constrain2node region_then_node (Some (rect 1 2 3 4))) = None \<and>
   region_source (set_constrain2node unconstrained (Some (rect 1 2 3 4))) = Some (rect 1 2 3 4) \<and>
   region_source (set_constrain2region node_then_region None) = Some (rect 100 300 300 100)"
  using C6_region_priority [of node_then_region False "(7, 9)" "Some (rect 1 2 3 4)" None]
        C6_region_priority [of region_then_node False "(7, 9)" "Some (rect 1 2 3 4)" None]
        C6_region_priority [of "set_constrain2view unconstrained True" False "(7, 9)" None None]
        C6_region_priority [of unconstrained True "(7, 9)" "Some (rect 1 2 3 4)" None]
  by (simp add: set_constrain2view_def align_def)

text \<open>
  \<open>set("constrain2node", n)\<close> followed by \<open>set("constrain2region", r)\<close>: both are
  stored, and \<open>getRegion\<close> answers with the node's region, not the rectangle.
\<close>

theorem C6_node_first_counterexample:
  "constrain2region node_then_region = Some (rect 10 500 400 20) \<and>
   constrain2node node_then_region = Some (rect 100 300 300 100) \<and>
   getRegion node_then_region False = Some (rect 100 300 300 100) \<and>
   getRegion node_then_region False \<noteq> Some (rect 10 500 400 20)"
  by (simp add: getRegion_def region_source_def rect_def)


section \<open>Click versus drag\<close>

lemma counts_upd [simp]:
  "starts (d\<lparr>mouseXY := m\<rparr>) = starts d" "ends (d\<lparr>mouseXY := m\<rparr>) = ends d"
  "starts (d\<lparr>clickTimeout := c\<rparr>) = starts d" "ends (d\<lparr>clickTimeout := c\<rparr>) = ends d"
  "starts (d\<lparr>dragThreshMet := t\<rparr>) = starts d" "ends (d\<lparr>dragThreshMet := t\<rparr>) = ends d"
  "starts (d\<lparr>fromTimeout := f\<rparr>) = starts d" "ends (d\<lparr>fromTimeout := f\<rparr>) = ends d"
  by (simp_all add: starts_def ends_def)

lemma moveNode_fields [simp]:
  "lock (moveNode al d S X) = lock d"
  "dragging (moveNode al d S X) = dragging d"
  "dragThreshMet (moveNode al d S X) = dragThreshMet d"
  "clickTimeout (moveNode al d S X) = clickTimeout d"
  "startXY (moveNode al d S X) = startXY d"
  "deltaXY (moveNode al d S X) = deltaXY d"
  "nodeXY (moveNode al d S X) = nodeXY d"
  "clickPixelThresh (moveNode al d S X) = clickPixelThresh d"
  "lastXY (moveNode al d S X) = al d S"
  by (simp_all add: moveNode_def Let_def)

lemma moveNode_counts [simp]:
  "starts (moveNode al d S X) = starts d" "ends (moveNode al d S X) = ends d"
  by (simp_all add: moveNode_def starts_def ends_def Let_def)

lemma start_fields [simp]:
  "lock (start d) = lock d"
  "dragThreshMet (start d) = dragThreshMet d"
  "clickTimeout (start d) = clickTimeout d"
  "startXY (start d) = startXY d"
  "deltaXY (start d) = deltaXY d"
  "nodeXY (start d) = nodeXY d"
  "lastXY (start d) = lastXY d"
  "clickPixelThresh (start d) = clickPixelThresh d"
  "ends (start d) = ends d"
  by (simp_all add: start_def ends_def Let_def)

lemma start_fresh:
  "\<not> lock d \<Longrightarrow> \<not> dragging d \<Longrightarrow> dragging (start d) \<and> starts (start d) = starts d + 1"
  by (simp add: start_def starts_def Let_def)

lemma start_again: "dragging d \<Longrightarrow> start d = d"
  by (simp add: start_def)

lemma pending_step:
  assumes "pending d0 d" and "e \<noteq> MouseUp"
  shows "snd (dispatch al (d, True) e) \<and>
         (if exceeds d0 e then promoted d0 (fst (dispatch al (d, True) e))
          else pending d0 (fst (dispatch al (d, True) e)))"
proof (cases e)
  case (MouseMove p)
  then show ?thesis using assms
    by (auto simp: pending_def promoted_def move_ev_def Let_def start_fresh)
next
  case Timeout
  then show ?thesis using assms
    by (auto simp: pending_def promoted_def timeoutCheck_def Let_def start_fresh)
next
  case MouseUp
  then show ?thesis using assms by simp
qed

lemma promoted_step:
  assumes "promoted d0 d" and "e \<noteq> MouseUp"
  shows "snd (dispatch al (d, True) e) \<and> promoted d0 (fst (dispatch al (d, True) e))"
proof (cases e)
  case (MouseMove p)
  then show ?thesis using assms
    by (auto simp: promoted_def move_ev_def Let_def)
next
  case Timeout
  then show ?thesis using assms
    by (auto simp: promoted_def timeoutCheck_def Let_def start_again)
next
  case MouseUp
  then show ?thesis using assms by simp
qed

lemma run_snoc: "run al s (es @ [e]) = dispatch al (run al s es) e"
  by (simp add: run_def)

lemma run_session:
  assumes "pending d0 d0" and "MouseUp \<notin> set es"
  shows "snd (run al (d0, True) es) \<and>
         (if \<exists>e\<in>set es. exceeds d0 e then promoted d0 (fst (run al (d0, True) es))
          else pending d0 (fst (run al (d0, True) es)))"
  using assms(2)
proof (induction es rule: rev_induct)
  case Nil
  then show ?case using assms(1) by (simp add: run_def)
next
  case (snoc e es)
  obtain d a where r: "run al (d0, True) es = (d, a)" by (cases "run al (d0, True) es")
  from snoc.prems have e: "e \<noteq> MouseUp" and es: "MouseUp \<notin> set es" by auto
  from snoc.IH [OF es] have IH: "a" "if \<exists>e\<in>set es. exceeds d0 e then promoted d0 d else pending d0 d"
    unfolding r by (auto split: if_splits)
  show ?case
  proof (cases "\<exists>e\<in>set es. exceeds d0 e")
    case True
    then have "promoted d0 d" using IH by simp
    from promoted_step [OF this e, of al] True IH(1) r show ?thesis
      by (simp add: run_snoc)
  next
    case False
    then have "pending d0 d" using IH by simp
    from pending_step [OF this e, of al] False IH(1) r show ?thesis
      by (simp add: run_snoc)
  qed
qed

lemma handleMouseDown_accepted:
  assumes "valid_target ev" and "primaryButtonOnly d \<longrightarrow> button ev \<le> 1"
  shows "snd (handleMouseDown d ev)"
    and "startXY (fst (handleMouseDown d ev)) = pageXY ev"
    and "clickPixelThresh (fst (handleMouseDown d ev)) = clickPixelThresh d"
    and "lock (fst (handleMouseDown d ev)) = lock d"
    and "dragging (fst (handleMouseDown d ev)) = dragging d"
    and "\<not> dragThreshMet (fst (handleMouseDown d ev))"
    and "clickTimeout (fst (handleMouseDown d ev))"
    and "starts (fst (handleMouseDown d ev)) = starts d"
    and "ends (fst (handleMouseDown d ev)) = ends d"
    and "nodeXY (fst (handleMouseDown d ev)) = node_xy d"
    and "lastXY (fst (handleMouseDown d ev)) = node_xy d"
    and "deltaXY (fst (handleMouseDown d ev)) =
           (if offsetNode d then (fst (pageXY ev) - fst (node_xy d), snd (pageXY ev) - snd (node_xy d))
            else (0, 0))"
  using assms
  by (auto simp: handleMouseDown_def setStartPosition_def Let_def starts_def ends_def)

lemma handleMouseDown_pending:
  assumes "\<not> lock d" and "\<not> dragging d" and "valid_target ev"
    and "primaryButtonOnly d \<longrightarrow> button ev \<le> 1"
  shows "pending (fst (handleMouseDown d ev)) (fst (handleMouseDown d ev))"
  using assms handleMouseDown_accepted [OF assms(3,4)] by (simp add: pending_def)

lemma end_pending:
  assumes "pending d0 d"
  shows "\<not> dragging (end_drag d) \<and> starts (end_drag d) = starts d0 \<and> ends (end_drag d) = ends d0"
  using assms by (simp add: pending_def end_drag_def Let_def starts_def ends_def)

lemma end_promoted:
  assumes "promoted d0 d"
  shows "\<not> dragging (end_drag d) \<and> starts (end_drag d) = starts d0 + 1 \<and>
         ends (end_drag d) = ends d0 + 1"
  using assms by (simp add: promoted_def end_drag_def Let_def starts_def ends_def)

text \<open>
  C4.  A pointer-down on an unlocked, idle Drag is accepted (valid target, button
  allowed) and followed by pointer-moves and possibly the click timer running out.
  As long as every move stays within \<open>clickPixelThresh\<close> pixels of the start point
  on each axis and the timer has not run out, the Drag is not dragging and has
  fired no \<open>drag:start\<close>; a pointer-up then fires no \<open>drag:end\<close>.  As soon as one
  event exceeds a threshold the Drag is dragging, and however the session goes on
  \<open>drag:start\<close> has been fired exactly once; the pointer-up then fires \<open>drag:end\<close>
  once.
\<close>

theorem C4_click_versus_drag:
  assumes "\<not> lock d" and "\<not> dragging d" and "valid_target ev"
    and "primaryButtonOnly d \<longrightarrow> button ev \<le> 1" and "MouseUp \<notin> set es"
  shows "snd (handleMouseDown d ev) \<and>
    (let d0 = fst (handleMouseDown d ev);
         s = run al (d0, True) es;
         s' = run al (d0, True) (es @ [MouseUp]);
         n = (if \<exists>e\<in>set es. exceeds d0 e then 1 else 0)
     in startXY d0 = pageXY ev \<and> clickPixelThresh d0 = clickPixelThresh d \<and>
        dragging (fst s) = (\<exists>e\<in>set es. exceeds d0 e) \<and>
        starts (fst s) = starts d + n \<and> ends (fst s) = ends d \<and>
        \<not> dragging (fst s') \<and> \<not> snd s' \<and>
        starts (fst s') = starts d + n \<and> ends (fst s') = ends d + n)"
proof -
  define d0 where "d0 = fst (handleMouseDown d ev)"
  define s where "s = run al (d0, True) es"
  have acc: "snd (handleMouseDown d ev)" "startXY d0 = pageXY ev"
    "clickPixelThresh d0 = clickPixelThresh d" "starts d0 = starts d" "ends d0 = ends d"
    unfolding d0_def using handleMouseDown_accepted [OF assms(3,4)] by simp_all
  have p0: "pending d0 d0" unfolding d0_def by (rule handleMouseDown_pending [OF assms(1-4)])
  have act: "snd s"
    and st: "if \<exists>e\<in>set es. exceeds d0 e then promoted d0 (fst s) else pending d0 (fst s)"
    unfolding s_def using run_session [OF p0 assms(5), of al] by simp_all
  have s': "run al (d0, True) (es @ [MouseUp]) = (end_drag (fst s), False)"
    using act by (cases s) (simp add: run_snoc s_def)
  show ?thesis
  proof (cases "\<exists>e\<in>set es. exceeds d0 e")
    case True
    then have pr: "promoted d0 (fst s)" using st by simp
    show ?thesis
      using True pr end_promoted [OF pr] acc s'
      unfolding Let_def d0_def [symmetric] s_def [symmetric]
      by (simp add: promoted_def)
  next
    case False
    then have pe: "pending d0 (fst s)" using st by simp
    show ?thesis
      using False pe end_pending [OF pe] acc s'
      unfolding Let_def d0_def [symmetric] s_def [symmetric]
      by (simp add: pending_def)
  qed
qed

lemma base_drag_simps [simp]:
  "lock base_drag = False" "dragging base_drag = False" "primaryButtonOnly base_drag = True"
  "offsetNode base_drag = True" "node_xy base_drag = (100, 100)" "move base_drag = True"
  "clickPixelThresh base_drag = 3" "fired base_drag = []" "node_w base_drag = 50"
  "node_h base_drag = 50"
  by (simp_all add: base_drag_def)

lemma down_simps [simp]:
  "pageXY down_105_102 = (105, 102)" "button down_105_102 = 0" "valid_target down_105_102"
  by (simp_all add: down_105_102_def)

lemma starts_base [simp]: "starts base_drag = 0" "ends base_drag = 0"
  by (simp_all add: starts_def ends_def)


theorem C4_click_versus_drag_witness:
  "starts (fst (run align (fst (handleMouseDown base_drag down_105_102), True)
      [MouseMove (106, 103), MouseMove (104, 100)])) = 0 \<and>
   \<not> dragging (fst (run align (fst (handleMouseDown base_drag down_105_102), True)
      [MouseMove (106, 103), MouseMove (104, 100)])) \<and>
   ends (fst (run align (fst (handleMouseDown base_drag down_105_102), True)
      ([MouseMove (106, 103), MouseMove (104, 100)] @ [MouseUp]))) = 0 \<and>
   starts (fst (run align (fst (handleMouseDown base_drag down_105_102), True)
      [MouseMove (106, 103), MouseMove (150, 160), Timeout, MouseMove (151, 161)])) = 1 \<and>
   dragging (fst (run align (fst (handleMouseDown base_drag down_105_102), True)
      [MouseMove (106, 103), MouseMove (150, 160), Timeout, MouseMove (151, 161)])) \<and>
   ends (fst (run align (fst (handleMouseDown base_drag down_105_102), True)
      ([MouseMove (106, 103), MouseMove (150, 160), Timeout, MouseMove (151, 161)] @ [MouseUp]))) = 1"
  using C4_click_versus_drag [of base_drag down_105_102
          "[MouseMove (106, 103), MouseMove (104, 100)]" align]
        C4_click_versus_drag [of base_drag down_105_102
          "[MouseMove (106, 103), MouseMove (150, 160), Timeout, MouseMove (151, 161)]" align]
  by (simp add: Let_def)

lemma moveNode_align_c_plain:
  assumes "getRegion c True = None" "\<not> stickX c" "\<not> stickY c"
    "tickX c = None" "tickY c = None" "tickXArray c = None" "tickYArray c = None"
  shows "lastXY (moveNode align_c c p X) = (fst p - fst (deltaXY c), snd p - snd (deltaXY c))"
  using align_c_plain [OF assms, of p] by (simp add: align_def)

lemma scenario_105_102:
  "deltaXY (fst (handleMouseDown base_drag down_105_102)) = (5, 2)"
  "\<not> dragging (fst (handleMouseDown base_drag down_105_102))"
  "dragging (fst (dispatch align (fst (handleMouseDown base_drag down_105_102), True)
      (MouseMove (150, 160))))"
  "lastXY (fst (dispatch align (fst (handleMouseDown base_drag down_105_102), True)
      (MouseMove (150, 160)))) = (145, 158)"
  "node_xy (fst (dispatch align (fst (handleMouseDown base_drag down_105_102), True)
      (MouseMove (150, 160)))) = (145, 158)"
  by (simp_all add: handleMouseDown_def setStartPosition_def move_ev_def start_def
      moveNode_def align_def Let_def)

text \<open>
  C3.  The position computed for a pointer coordinate \<open>p\<close> is \<open>p\<close> minus
  \<open>deltaXY\<close>, and it becomes the tracked position \<open>lastXY\<close>; \<open>deltaXY\<close> is the
  offset between the pointer and the node origin captured at pointer-down.  The
  constrained Drag computes the same position when no region, axis lock or tick
  is configured.  For a node at \<open>(100, 100)\<close>, a pointer-down at \<open>(105, 102)\<close> and a
  pointer-move to \<open>(150, 160)\<close> the Drag is dragging and the tracked position, and
  the position of the node, is \<open>(145, 158)\<close>.
\<close>

theorem C3_position_update:
  "align d p = (fst p - fst (deltaXY d), snd p - snd (deltaXY d)) \<and>
   lastXY (moveNode align d p X) = (fst p - fst (deltaXY d), snd p - snd (deltaXY d)) \<and>
   (valid_target ev \<and> (primaryButtonOnly d \<longrightarrow> button ev \<le> 1) \<and> offsetNode d \<longrightarrow>
      deltaXY (fst (handleMouseDown d ev)) =
        (fst (pageXY ev) - fst (node_xy d), snd (pageXY ev) - snd (node_xy d))) \<and>
   (getRegion c True = None \<and> \<not> stickX c \<and> \<not> stickY c \<and> tickX c = None \<and>
    tickY c = None \<and> tickXArray c = None \<and> tickYArray c = None \<longrightarrow>
      lastXY (moveNode align_c c p X) = (fst p - fst (deltaXY c), snd p - snd (deltaXY c))) \<and>
   node_xy base_drag = (100, 100) \<and>
   (let d0 = fst (handleMouseDown base_drag down_105_102);
        d1 = fst (dispatch align (d0, True) (MouseMove (150, 160)))
    in deltaXY d0 = (5, 2) \<and> \<not> dragging d0 \<and> dragging d1 \<and>
       lastXY d1 = (145, 158) \<and> node_xy d1 = (145, 158))"
proof (intro conjI impI)
  show "align d p = (fst p - fst (deltaXY d), snd p - snd (deltaXY d))"
    by (simp add: align_def)
  show "lastXY (moveNode align d p X) = (fst p - fst (deltaXY d), snd p - snd (deltaXY d))"
    by (simp add: align_def)
  show "node_xy base_drag = (100, 100)" by simp
  show "let d0 = fst (handleMouseDown base_drag down_105_102);
        d1 = fst (dispatch align (d0, True) (MouseMove (150, 160)))
    in deltaXY d0 = (5, 2) \<and> \<not> dragging d0 \<and> dragging d1 \<and>
       lastXY d1 = (145, 158) \<and> node_xy d1 = (145, 158)"
    unfolding Let_def using scenario_105_102 by blast
next
  assume "valid_target ev \<and> (primaryButtonOnly d \<longrightarrow> button ev \<le> 1) \<and> offsetNode d"
  then show "deltaXY (fst (handleMouseDown d ev)) =
        (fst (pageXY ev) - fst (node_xy d), snd (pageXY ev) - snd (node_xy d))"
    using handleMouseDown_accepted(12) [of ev d] by simp
next
  assume "getRegion c True = None \<and> \<not> stickX c \<and> \<not> stickY c \<and> tickX c = None \<and>
    tickY c = None \<and> tickXArray c = None \<and> tickYArray c = None"
  then show "lastXY (moveNode align_c c p X) = (fst p - fst (deltaXY c), snd p - snd (deltaXY c))"
    by (simp add: align_c_plain align_def)
qed

theorem C3_position_update_witness:
  "deltaXY (fst (handleMouseDown base_drag down_105_102)) = (105 - 100, 102 - 100) \<and>
   lastXY (moveNode align_c unconstrained (150, 160) False) = (150, 160) \<and>
   lastXY (fst (dispatch align (fst (handleMouseDown base_drag down_105_102), True)
      (MouseMove (150, 160)))) = (145, 158)"
  using C3_position_update [of base_drag "(150, 160)" False down_105_102 unconstrained]
  by (simp add: Let_def getRegion_none)


section \<open>Best match\<close>

lemma intersect_area_nonneg: "0 \<le> i_area (intersect r1 r2)"
  by (simp add: intersect_def Let_def)

lemma intersect_positive_inRegion: "0 < i_area (intersect r1 r2) \<Longrightarrow> i_inRegion (intersect r1 r2)"
  by (simp add: intersect_def Let_def split: if_splits)

lemma overlap_area_nonneg: "0 \<le> overlap_area D I"
  by (simp add: overlap_area_def intersect_area_nonneg)

lemma first_max_Cons:
  "first_max D F pre w post \<Longrightarrow> overlap_area D I < overlap_area D w \<Longrightarrow>
   first_max D (I # F) (I # pre) w post"
  by (simp add: first_max_def)

lemma first_max_head:
  "\<forall>J\<in>set F. overlap_area D J \<le> overlap_area D I \<Longrightarrow> first_max D (I # F) [] I F"
  by (simp add: first_max_def)

lemma bestMatch_loop_step:
  assumes "drop_region I = Some reg" and that: "0 \<le> E"
  shows "bestMatch_loop (Some D) (I # F) C E =
     (case bestMatch_loop (Some D) F
             (if E < overlap_area D I then Some (with_area D I) else C)
             (if E < overlap_area D I then overlap_area D I else E) of
        Inl e \<Rightarrow> Inl e
      | Inr (F', C'', E'') \<Rightarrow> Inr (with_area D I # F', C'', E''))"
proof -
  let ?a = "i_area (intersect (dragNode_region D) (drop_node_region I))"
  have c: "(i_inRegion (intersect (dragNode_region D) (drop_node_region I)) \<and> E < ?a) \<longleftrightarrow> E < ?a"
    using that intersect_positive_inRegion [of "dragNode_region D" "drop_node_region I"]
    by auto
  show ?thesis
    by (simp add: assms(1) Let_def c with_area_def overlap_area_def split: sum.splits prod.splits)
qed

lemma bestMatch_loop_spec:
  assumes "\<forall>I\<in>set F. drop_region I \<noteq> None" and "0 \<le> E"
  shows "\<exists>C' E'. bestMatch_loop (Some D) F C E = Inr (map (with_area D) F, C', E') \<and>
     (if \<forall>I\<in>set F. overlap_area D I \<le> E then C' = C \<and> E' = E
      else \<exists>pre w post. first_max D F pre w post \<and> C' = Some (with_area D w) \<and>
             E' = overlap_area D w \<and> E < overlap_area D w)"
  using assms
proof (induction F arbitrary: C E)
  case Nil
  then show ?case by simp
next
  case (Cons I F)
  from Cons.prems obtain reg where reg: "drop_region I = Some reg" by auto
  let ?a = "overlap_area D I"
  have regs: "\<forall>I\<in>set F. drop_region I \<noteq> None" using Cons.prems by simp
  note step = bestMatch_loop_step [OF reg Cons.prems(2), of D F C]
  show ?case
  proof (cases "E < ?a")
    case True
    have a0: "0 \<le> ?a" by (rule overlap_area_nonneg)
    from Cons.IH [OF regs a0, of "Some (with_area D I)"] obtain C' E' where
      loop: "bestMatch_loop (Some D) F (Some (with_area D I)) ?a = Inr (map (with_area D) F, C', E')"
      and sp: "if \<forall>J\<in>set F. overlap_area D J \<le> ?a then C' = Some (with_area D I) \<and> E' = ?a
        else \<exists>pre w post. first_max D F pre w post \<and> C' = Some (with_area D w) \<and>
             E' = overlap_area D w \<and> ?a < overlap_area D w"
      by blast
    have res: "bestMatch_loop (Some D) (I # F) C E = Inr (map (with_area D) (I # F), C', E')"
      using True loop step by simp
    have "\<exists>pre w post. first_max D (I # F) pre w post \<and> C' = Some (with_area D w) \<and>
             E' = overlap_area D w \<and> E < overlap_area D w"
    proof (cases "\<forall>J\<in>set F. overlap_area D J \<le> ?a")
      case all: True
      then have "C' = Some (with_area D I)" "E' = ?a" using sp by simp_all
      then show ?thesis using True first_max_head [OF all] by blast
    next
      case False
      have "\<exists>pre w post. first_max D F pre w post \<and> C' = Some (with_area D w) \<and>
             E' = overlap_area D w \<and> ?a < overlap_area D w"
        using sp unfolding if_not_P [OF False] .
      then obtain pre w post where w: "first_max D F pre w post" "C' = Some (with_area D w)"
        "E' = overlap_area D w" "?a < overlap_area D w" by blast
      have "E < overlap_area D w" using True w(4) by simp
      then show ?thesis using first_max_Cons [OF w(1) w(4)] w(2,3) by blast
    qed
    moreover have nc: "\<not> (\<forall>J\<in>set (I # F). overlap_area D J \<le> E)" using True by auto
    ultimately show ?thesis unfolding if_not_P [OF nc] using res by blast
  next
    case False
    then have le: "?a \<le> E" by simp
    from Cons.IH [OF regs Cons.prems(2), of C] obtain C' E' where
      loop: "bestMatch_loop (Some D) F C E = Inr (map (with_area D) F, C', E')"
      and sp: "if \<forall>J\<in>set F. overlap_area D J \<le> E then C' = C \<and> E' = E
        else \<exists>pre w post. first_max D F pre w post \<and> C' = Some (with_area D w) \<and>
             E' = overlap_area D w \<and> E < overlap_area D w"
      by blast
    have res: "bestMatch_loop (Some D) (I # F) C E = Inr (map (with_area D) (I # F), C', E')"
      using False loop step by simp
    show ?thesis
    proof (cases "\<forall>J\<in>set F. overlap_area D J \<le> E")
      case True
      then have "C' = C \<and> E' = E" using sp by simp
      moreover have ac: "\<forall>J\<in>set (I # F). overlap_area D J \<le> E" using True le by simp
      ultimately show ?thesis unfolding if_P [OF ac] using res by blast
    next
      case nall: False
      have "\<exists>pre w post. first_max D F pre w post \<and> C' = Some (with_area D w) \<and>
             E' = overlap_area D w \<and> E < overlap_area D w"
        using sp unfolding if_not_P [OF nall] .
      then obtain pre w post where w: "first_max D F pre w post" "C' = Some (with_area D w)"
        "E' = overlap_area D w" "E < overlap_area D w" by blast
      have "?a < overlap_area D w" using le w(4) by simp
      then have "\<exists>pre w post. first_max D (I # F) pre w post \<and> C' = Some (with_area D w) \<and>
             E' = overlap_area D w \<and> E < overlap_area D w"
        using first_max_Cons [OF w(1)] w(2,3,4) by blast
      moreover have nc: "\<not> (\<forall>J\<in>set (I # F). overlap_area D J \<le> E)" using nall by auto
      ultimately show ?thesis unfolding if_not_P [OF nc] using res by blast
    qed
  qed
qed


lemma yuid_with_area [simp]: "yuid (with_area D I) = yuid I"
  by (simp add: with_area_def)

lemma differs_with_area:
  "differs (Some (with_area D w)) (with_area D x) \<longleftrightarrow> yuid x \<noteq> yuid w"
  by (simp add: differs_def)

lemma filter_differs_keep:
  "\<forall>x\<in>set xs. yuid x \<noteq> yuid w \<Longrightarrow>
   filter (differs (Some (with_area D w))) (map (with_area D) xs) = map (with_area D) xs"
  by (induction xs) (simp_all add: differs_with_area)

lemma filter_differs:
  assumes "distinct (map yuid (pre @ w # post))"
  shows "filter (differs (Some (with_area D w))) (map (with_area D) (pre @ w # post)) =
         map (with_area D) (pre @ post)"
proof -
  from assms have "yuid w \<notin> yuid ` set pre" "yuid w \<notin> yuid ` set post" by auto
  then have pre: "\<forall>x\<in>set pre. yuid x \<noteq> yuid w" and post: "\<forall>x\<in>set post. yuid x \<noteq> yuid w"
    by (metis imageI)+
  show ?thesis
    by (simp add: filter_differs_keep [OF pre] filter_differs_keep [OF post] differs_with_area)
qed

lemma filter_differs_None: "filter (differs None) F = F"
  by (simp add: differs_def)

text \<open>
  C1.  While a drag is active, for candidates that have a region and are pairwise
  different objects: when every candidate's intersection area with the drag node
  is zero, \<open>getBestMatch\<close> returns no winner (\<open>null\<close>), and the losers list, when
  asked for, holds all candidates.  Otherwise the winner is the first candidate of
  maximal area in iteration order, its area is positive, and the losers list
  holds exactly the other candidates, in order.
\<close>

theorem C1_getBestMatch:
  assumes "activeDrag m = Some D" and "\<forall>I\<in>set F. drop_region I \<noteq> None"
    and "distinct (map yuid F)"
  shows "if \<forall>I\<in>set F. overlap_area D I = 0
         then getBestMatch m F False = Inr (Winner None) \<and>
              getBestMatch m F True = Inr (Winner_and_losers None (map (with_area D) F))
         else \<exists>pre w post. first_max D F pre w post \<and> 0 < overlap_area D w \<and>
                getBestMatch m F False = Inr (Winner (Some (with_area D w))) \<and>
                getBestMatch m F True =
                  Inr (Winner_and_losers (Some (with_area D w)) (map (with_area D) (pre @ post)))"
proof -
  from bestMatch_loop_spec [OF assms(2), of 0 D None] obtain C' E' where
    loop: "bestMatch_loop (Some D) F None 0 = Inr (map (with_area D) F, C', E')"
    and sp: "if \<forall>I\<in>set F. overlap_area D I \<le> 0 then C' = None \<and> E' = 0
      else \<exists>pre w post. first_max D F pre w post \<and> C' = Some (with_area D w) \<and>
             E' = overlap_area D w \<and> 0 < overlap_area D w"
    by auto
  have z: "(\<forall>I\<in>set F. overlap_area D I \<le> 0) \<longleftrightarrow> (\<forall>I\<in>set F. overlap_area D I = 0)"
    using overlap_area_nonneg [of D] by (auto simp: order_antisym)
  show ?thesis
  proof (cases "\<forall>I\<in>set F. overlap_area D I = 0")
    case True
    then have "C' = None" using sp z by simp
    then show ?thesis
      unfolding if_P [OF True] using loop assms(1)
      by (simp add: getBestMatch_def filter_differs_None)
  next
    case False
    then have n: "\<not> (\<forall>I\<in>set F. overlap_area D I \<le> 0)" using z by simp
    have "\<exists>pre w post. first_max D F pre w post \<and> C' = Some (with_area D w) \<and>
             E' = overlap_area D w \<and> 0 < overlap_area D w"
      using sp unfolding if_not_P [OF n] .
    then obtain pre w post where w: "first_max D F pre w post" "C' = Some (with_area D w)"
      "0 < overlap_area D w" by blast
    have F: "F = pre @ w # post" using w(1) by (simp add: first_max_def)
    have los: "filter (differs (Some (with_area D w))) (map (with_area D) F) =
               map (with_area D) (pre @ post)"
      using assms(3) unfolding F by (rule filter_differs)
    have "getBestMatch m F False = Inr (Winner (Some (with_area D w)))"
      using loop assms(1) w(2) by (simp add: getBestMatch_def)
    moreover have "getBestMatch m F True =
        Inr (Winner_and_losers (Some (with_area D w)) (map (with_area D) (pre @ post)))"
      using loop assms(1) w(2) los by (simp add: getBestMatch_def)
    ultimately show ?thesis unfolding if_not_P [OF False] using w(1,3) by blast
  qed
qed

lemmas example_defs =
  drag_50_def drop_A_def drop_A2_def drop_B_def drop_C_def ddm_of_def base_drag_def
  no_gutter_def rect_def

lemma example_areas:
  "overlap_area drag_50 drop_A = 2500" "overlap_area drag_50 drop_A2 = 2500"
  "overlap_area drag_50 drop_B = 0"
  by (simp_all add: overlap_area_def intersect_def dragNode_region_def drop_node_region_def
      example_defs)

lemma example_best:
  "getBestMatch (ddm_of (Some drag_50) []) [drop_B, drop_A, drop_A2] True =
     Inr (Winner_and_losers (Some (with_area drag_50 drop_A))
            [with_area drag_50 drop_B, with_area drag_50 drop_A2])"
  "getBestMatch (ddm_of (Some drag_50) []) [drop_B] False = Inr (Winner None)"
  by (simp_all add: getBestMatch_def with_area_def overlap_area_def intersect_def
      dragNode_region_def drop_node_region_def differs_def example_defs Let_def)

theorem C1_getBestMatch_witness:
  "(\<exists>pre w post. first_max drag_50 [drop_B, drop_A, drop_A2] pre w post \<and>
      0 < overlap_area drag_50 w \<and>
      getBestMatch (ddm_of (Some drag_50) []) [drop_B, drop_A, drop_A2] False =
        Inr (Winner (Some (with_area drag_50 w))) \<and>
      getBestMatch (ddm_of (Some drag_50) []) [drop_B, drop_A, drop_A2] True =
        Inr (Winner_and_losers (Some (with_area drag_50 w))
               (map (with_area drag_50) (pre @ post)))) \<and>
   getBestMatch (ddm_of (Some drag_50) []) [drop_B, drop_A, drop_A2] True =
     Inr (Winner_and_losers (Some (with_area drag_50 drop_A))
            [with_area drag_50 drop_B, with_area drag_50 drop_A2]) \<and>
   overlap_area drag_50 drop_A = 2500 \<and> overlap_area drag_50 drop_A2 = 2500 \<and>
   overlap_area drag_50 drop_B = 0 \<and>
   getBestMatch (ddm_of (Some drag_50) []) [drop_B] False = Inr (Winner None) \<and>
   getBestMatch (ddm_of (Some drag_50) []) [drop_B] True =
     Inr (Winner_and_losers None (map (with_area drag_50) [drop_B]))"
proof -
  have a: "activeDrag (ddm_of (Some drag_50) []) = Some drag_50" by (simp add: ddm_of_def)
  have r3: "\<forall>I\<in>set [drop_B, drop_A, drop_A2]. drop_region I \<noteq> None"
    by (simp add: example_defs)
  have d3: "distinct (map yuid [drop_B, drop_A, drop_A2])" by (simp add: example_defs)
  have n3: "\<not> (\<forall>I\<in>set [drop_B, drop_A, drop_A2]. overlap_area drag_50 I = 0)"
    by (simp add: example_areas)
  have r1: "\<forall>I\<in>set [drop_B]. drop_region I \<noteq> None" by (simp add: example_defs)
  have d1: "distinct (map yuid [drop_B])" by simp
  have z1: "\<forall>I\<in>set [drop_B]. overlap_area drag_50 I = 0" by (simp add: example_areas)
  note three = C1_getBestMatch [OF a r3 d3, unfolded if_not_P [OF n3]]
  note one = C1_getBestMatch [OF a r1 d1, unfolded if_P [OF z1]]
  show ?thesis using three one example_best(1) example_areas by blast
qed

section \<open>Hit testing of one target\<close>

text \<open>
  C2 (as amended).  For an active Drag in STRICT mode that has a region, and a Drop
  that has a region, \<open>isOverTarget\<close> returns true if and only if a pointer position
  has been recorded for the Drag (\<open>mouseXY\<close>) and the Drag's region is contained in
  the Drop's region on all four sides.
\<close>

theorem C2_strict_containment:
  assumes "activeDrag m = Some D" and "dragMode D = STRICT"
    and "drag_region D = Some r" and "drop_region P = Some reg"
  shows "isOverTarget m (Some P) =
     Inr (mouseXY D \<noteq> None \<and> left reg \<le> left r \<and> right r \<le> right reg \<and>
          top_r reg \<le> top_r r \<and> bottom r \<le> bottom reg)"
  using assms by (cases "mouseXY D") (auto simp: isOverTarget_def inRegion_all_def)

lemma strict_examples:
  "isOverTarget (ddm_of (Some (drag_50\<lparr>dragMode := STRICT\<rparr>)) []) (Some drop_C) = Inr True"
  "isOverTarget (ddm_of (Some (drag_50\<lparr>dragMode := STRICT\<rparr>)) []) (Some drop_A) = Inr False"
  "i_inRegion (intersect (rect 50 150 150 50) (rect 0 100 100 0))"
  "isOverTarget (ddm_of (Some (drag_50\<lparr>dragMode := STRICT, mouseXY := None\<rparr>)) [])
     (Some drop_C) = Inr False"
  by (simp_all add: isOverTarget_def inRegion_all_def intersect_def example_defs)

theorem C2_strict_containment_witness:
  "isOverTarget (ddm_of (Some (drag_50\<lparr>dragMode := STRICT\<rparr>)) []) (Some drop_C) = Inr True \<and>
   isOverTarget (ddm_of (Some (drag_50\<lparr>dragMode := STRICT\<rparr>)) []) (Some drop_A) = Inr False \<and>
   i_inRegion (intersect (rect 50 150 150 50) (rect 0 100 100 0))"
  using C2_strict_containment [of "ddm_of (Some (drag_50\<lparr>dragMode := STRICT\<rparr>)) []"
          "drag_50\<lparr>dragMode := STRICT\<rparr>" "rect 50 150 150 50" drop_C "rect 40 240 240 40"]
        C2_strict_containment [of "ddm_of (Some (drag_50\<lparr>dragMode := STRICT\<rparr>)) []"
          "drag_50\<lparr>dragMode := STRICT\<rparr>" "rect 50 150 150 50" drop_A "rect 0 100 100 0"]
  by (simp add: example_defs intersect_def)

text \<open>
  An active Drag in STRICT mode whose region lies inside the Drop's region, before
  any pointer-move has been seen: \<open>isOverTarget\<close> returns false.
\<close>

theorem C2_no_pointer_counterexample:
  "activeDrag (ddm_of (Some (drag_50\<lparr>dragMode := STRICT, mouseXY := None\<rparr>)) []) =
     Some (drag_50\<lparr>dragMode := STRICT, mouseXY := None\<rparr>) \<and>
   dragMode (drag_50\<lparr>dragMode := STRICT, mouseXY := None\<rparr>) = STRICT \<and>
   drag_region (drag_50\<lparr>dragMode := STRICT, mouseXY := None\<rparr>) = Some (rect 50 150 150 50) \<and>
   drop_region drop_C = Some (rect 40 240 240 40) \<and>
   inRegion_all (rect 50 150 150 50) (rect 40 240 240 40) \<and>
   isOverTarget (ddm_of (Some (drag_50\<lparr>dragMode := STRICT, mouseXY := None\<rparr>)) [])
     (Some drop_C) = Inr False"
  by (simp add: isOverTarget_def inRegion_all_def example_defs)








section \<open>Groups and target activation\<close>

lemma inGroup_loop_iff:
  "inGroup_loop proto own J K \<longleftrightarrow> K \<or> (\<exists>M\<in>set J. has_property proto own M)"
  by (induction J arbitrary: K) auto

lemma inGroup_iff: "fst (inGroup proto P J) \<longleftrightarrow> (\<exists>M\<in>set J. has_property proto (drop_groups P) M)"
  by (simp add: inGroup_def inGroup_loop_iff Let_def)

lemma inGroup_intersection:
  assumes "\<forall>g\<in>set J. \<not> proto g"
  shows "fst (inGroup proto P J) \<longleftrightarrow> set J \<inter> set (drop_groups P) \<noteq> {}"
  using assms by (auto simp: inGroup_iff has_property_def)

lemma inGroup_inherited: "g \<in> set J \<Longrightarrow> proto g \<Longrightarrow> fst (inGroup proto P J)"
  by (auto simp: inGroup_iff has_property_def)

lemma inGroup_yuid [simp]: "yuid (snd (inGroup proto P J)) = yuid P"
  by (simp add: inGroup_def Let_def)

lemma inGroup_result: "inGroup proto P J = (K, P1) \<Longrightarrow> K = fst (inGroup proto P J) \<and> yuid P1 = yuid P"
  using inGroup_yuid [of proto P J] by simp

lemma map_filter_yuid:
  "map yuid (filter (\<lambda>E. yuid E \<noteq> i) xs) = filter (\<lambda>j. j \<noteq> i) (map yuid xs)"
  by (induction xs) auto

lemma activateShim_unfold:
  assumes "activeDrag m = Some D" and "drop_node P \<noteq> node D" and "\<not> drop_lock P"
    and "inGroup proto P (groups D) = (K, P1)"
  shows "activateShim proto m P =
     (if K then (addValid m (sizeShim D (P1\<lparr>overTarget := False\<rparr>)),
                 sizeShim D (P1\<lparr>overTarget := False\<rparr>))
      else (removeValid m P1, P1))"
  using assms by (simp add: activateShim_def Let_def)

lemma sizeShim_yuid [simp]: "yuid (sizeShim D P) = yuid P"
  by (simp add: sizeShim_def Let_def)

lemma activateShim_skip:
  assumes "activeDrag m = Some D" and "drop_node P = node D \<or> drop_lock P"
  shows "activateShim proto m P = (m, P)"
  using assms by (auto simp: activateShim_def)

lemma activateShim_frame:
  "activeDrag (fst (activateShim proto m P)) = activeDrag m"
  "targets (fst (activateShim proto m P)) = targets m"
  "useHash (fst (activateShim proto m P)) = useHash m"
  "yuid (snd (activateShim proto m P)) = yuid P"
proof -
  show "activeDrag (fst (activateShim proto m P)) = activeDrag m"
    by (simp add: activateShim_def addValid_def removeValid_def Let_def
        split: option.splits prod.splits)
  show "targets (fst (activateShim proto m P)) = targets m"
    by (simp add: activateShim_def addValid_def removeValid_def Let_def
        split: option.splits prod.splits)
  show "useHash (fst (activateShim proto m P)) = useHash m"
    by (simp add: activateShim_def addValid_def removeValid_def Let_def
        split: option.splits prod.splits)
  show "yuid (snd (activateShim proto m P)) = yuid P"
    by (auto simp: activateShim_def Let_def split: option.splits prod.splits
        dest: inGroup_result)
qed

lemma activateShim_valid:
  assumes "activeDrag m = Some D"
  shows "map yuid (validDrops (fst (activateShim proto m P))) =
     (if eligible proto D P then map yuid (validDrops m) @ [yuid P]
      else if drop_node P = node D \<or> drop_lock P then map yuid (validDrops m)
      else filter (\<lambda>i. i \<noteq> yuid P) (map yuid (validDrops m)))"
proof (cases "drop_node P = node D \<or> drop_lock P")
  case True
  have "\<not> eligible proto D P" using True by (auto simp: eligible_def)
  then show ?thesis using True activateShim_skip [OF assms True] by simp
next
  case False
  then have ns: "drop_node P \<noteq> node D" and nl: "\<not> drop_lock P" by simp_all
  obtain K P1 where in1: "inGroup proto P (groups D) = (K, P1)" by (cases "inGroup proto P (groups D)")
  note r = inGroup_result [OF in1]
  note u = activateShim_unfold [OF assms ns nl in1]
  show ?thesis
  proof (cases K)
    case True
    then have e: "eligible proto D P" using r ns nl by (simp add: eligible_def)
    have "map yuid (validDrops (fst (activateShim proto m P))) = map yuid (validDrops m) @ [yuid P]"
      unfolding u using True r by (simp add: addValid_def)
    then show ?thesis using e by simp
  next
    case nk: False
    then have e: "\<not> eligible proto D P" using r by (simp add: eligible_def)
    have "map yuid (validDrops (fst (activateShim proto m P))) =
        filter (\<lambda>i. i \<noteq> yuid P) (map yuid (validDrops m))"
      unfolding u using nk r by (simp add: removeValid_def map_filter_yuid)
    then show ?thesis using e False by simp
  qed
qed

lemma filter_absent: "i \<notin> set xs \<Longrightarrow> filter (\<lambda>j. j \<noteq> i) xs = xs"
  by (induction xs) auto

lemma activateShims_valid:
  assumes "activeDrag m = Some D" and "distinct (map yuid ts)"
    and "set (map yuid ts) \<inter> set (map yuid (validDrops m)) = {}"
  shows "map yuid (validDrops (fst (activateShims proto m ts))) =
           map yuid (validDrops m) @ map yuid (filter (eligible proto D) ts) \<and>
         map yuid (snd (activateShims proto m ts)) = map yuid ts \<and>
         activeDrag (fst (activateShims proto m ts)) = Some D \<and>
         useHash (fst (activateShims proto m ts)) = useHash m"
  using assms
proof (induction ts arbitrary: m)
  case Nil
  then show ?case by simp
next
  case (Cons P ts)
  obtain m1 P' where s1: "activateShim proto m P = (m1, P')" by (cases "activateShim proto m P")
  obtain m2 ts' where s2: "activateShims proto m1 ts = (m2, ts')" by (cases "activateShims proto m1 ts")
  have a1: "activeDrag m1 = Some D" and u1: "useHash m1 = useHash m" and y1: "yuid P' = yuid P"
    using activateShim_frame [of proto m P] s1 Cons.prems(1) by simp_all
  have notin: "yuid P \<notin> set (map yuid (validDrops m))" using Cons.prems(3) by auto
  have v1: "map yuid (validDrops m1) =
      (if eligible proto D P then map yuid (validDrops m) @ [yuid P] else map yuid (validDrops m))"
    using activateShim_valid [OF Cons.prems(1), where P = P and proto = proto] s1 filter_absent [OF notin] by simp
  have d: "distinct (map yuid ts)" using Cons.prems(2) by simp
  have disj: "set (map yuid ts) \<inter> set (map yuid (validDrops m1)) = {}"
    using Cons.prems(2,3) v1 by auto
  from Cons.IH [OF a1 d disj] s2 have IH:
    "map yuid (validDrops m2) = map yuid (validDrops m1) @ map yuid (filter (eligible proto D) ts)"
    "map yuid ts' = map yuid ts" "activeDrag m2 = Some D" "useHash m2 = useHash m1"
    by simp_all
  show ?case using s1 s2 IH v1 y1 u1 by simp
qed

lemma activateTargets_valid:
  assumes "activeDrag m = Some D" and "distinct (map yuid (targets m))"
  shows "map yuid (validDrops (activateTargets proto m)) = map yuid (filter (eligible proto D) (targets m))"
    and "map yuid (targets (activateTargets proto m)) = map yuid (targets m)"
    and "activeDrag (activateTargets proto m) = Some D"
proof -
  have a: "activeDrag (clearCache m) = Some D" using assms(1) by (simp add: clearCache_def)
  have e: "set (map yuid (targets m)) \<inter> set (map yuid (validDrops (clearCache m))) = {}"
    by (simp add: clearCache_def)
  note r = activateShims_valid [OF a assms(2) e, where proto = proto]
  obtain m1 ts where s: "activateShims proto (clearCache m) (targets m) = (m1, ts)"
    by (cases "activateShims proto (clearCache m) (targets m)")
  show "map yuid (validDrops (activateTargets proto m)) = map yuid (filter (eligible proto D) (targets m))"
    using r s by (simp add: activateTargets_def clearCache_def)
  show "map yuid (targets (activateTargets proto m)) = map yuid (targets m)"
    using r s by (simp add: activateTargets_def)
  show "activeDrag (activateTargets proto m) = Some D"
    using r s by (simp add: activateTargets_def)
qed

lemma listed_filter:
  assumes "distinct (map yuid ts)" and "P \<in> set ts"
  shows "listed P (filter Q ts) \<longleftrightarrow> Q P"
proof
  assume "listed P (filter Q ts)"
  then obtain P' where P': "P' \<in> set ts" "Q P'" "yuid P' = yuid P"
    by (auto simp: listed_def)
  have "inj_on yuid (set ts)" using assms(1) by (simp add: distinct_map)
  then have "P' = P" using P' assms(2) by (auto dest: inj_onD)
  then show "Q P" using P' by simp
next
  assume "Q P"
  then show "listed P (filter Q ts)" using assms(2) by (auto simp: listed_def)
qed

lemma listed_cong: "map yuid xs = map yuid ys \<Longrightarrow> listed P xs = listed P ys"
  by (simp add: listed_def)

lemma activateTargets_listed:
  assumes "activeDrag m = Some D" and "distinct (map yuid (targets m))" and "P \<in> set (targets m)"
  shows "listed P (validDrops (activateTargets proto m)) \<longleftrightarrow> eligible proto D P"
  using listed_cong [OF activateTargets_valid(1) [OF assms(1,2), of proto], of P]
    listed_filter [OF assms(2,3), of "eligible proto D"] by simp

lemma lookup_listed: "listed P (lookup inViewport m) \<Longrightarrow> listed P (validDrops m)"
  by (auto simp: lookup_def listed_def split: if_splits)

lemma activateShim_listed:
  assumes "activeDrag m = Some D" and "drop_node P \<noteq> node D" and "\<not> drop_lock P"
  shows "listed P (validDrops (fst (activateShim proto m P))) \<longleftrightarrow> fst (inGroup proto P (groups D))"
  using activateShim_valid [OF assms(1), where P = P and proto = proto] assms(2,3)
  by (auto simp: listed_def eligible_def)

lemma example_fields [simp]:
  "activeDrag (ddm_of A ts) = A" "targets (ddm_of A ts) = ts"
  "groups drag_50 = [''a'']" "node drag_50 = 1"
  "yuid drop_A = 1" "yuid drop_B = 3" "yuid drop_locked = 5" "yuid drop_self = 6"
  "drop_node drop_A = 11" "drop_node drop_B = 13" "drop_node drop_locked = 15"
  "drop_node drop_self = 1"
  "drop_lock drop_A = False" "drop_lock drop_B = False" "drop_lock drop_locked = True"
  "drop_lock drop_self = False"
  "drop_groups drop_A = [''a'']" "drop_groups drop_B = [''b'']"
  "drop_groups drop_locked = [''a'']" "drop_groups drop_self = [''a'']"
  by (simp_all add: example_defs drop_locked_def drop_self_def)

text \<open>
  C8 (as amended).  For a drag none of whose group names is the name of a truthy
  property inherited from \<open>Object.prototype\<close>, and a Drop that is not locked and
  whose node is not the drag's node: \<open>inGroup\<close> returns true if and only if the
  group sets of the Drag and the Drop intersect; after target activation the Drop
  is in \<open>validDrops\<close> exactly in that case, both for the Drop's own
  \<open>_activateShim\<close> and for the manager's \<open>_activateTargets\<close>; a Drop whose groups do
  not meet the drag's is not in \<open>validDrops\<close> and is not among the drops that
  hit-testing visits.
\<close>

theorem C8_group_matching:
  assumes "activeDrag m = Some D" and "distinct (map yuid (targets m))"
    and "P \<in> set (targets m)"
    and "\<forall>g\<in>set (groups D). \<not> proto g"
    and "drop_node P \<noteq> node D" and "\<not> drop_lock P"
  shows "(fst (inGroup proto P (groups D)) \<longleftrightarrow> set (groups D) \<inter> set (drop_groups P) \<noteq> {}) \<and>
    (listed P (validDrops (activateTargets proto m)) \<longleftrightarrow>
       set (groups D) \<inter> set (drop_groups P) \<noteq> {}) \<and>
    (listed P (validDrops (fst (activateShim proto m P))) \<longleftrightarrow>
       set (groups D) \<inter> set (drop_groups P) \<noteq> {}) \<and>
    (set (groups D) \<inter> set (drop_groups P) = {} \<longrightarrow>
       \<not> listed P (lookup inViewport (activateTargets proto m)) \<and>
       \<not> listed P (lookup inViewport (fst (activateShim proto m P))))"
proof -
  have g: "fst (inGroup proto P (groups D)) \<longleftrightarrow> set (groups D) \<inter> set (drop_groups P) \<noteq> {}"
    by (rule inGroup_intersection [OF assms(4)])
  have e: "eligible proto D P \<longleftrightarrow> fst (inGroup proto P (groups D))"
    using assms(5,6) by (simp add: eligible_def)
  have t: "listed P (validDrops (activateTargets proto m)) \<longleftrightarrow> fst (inGroup proto P (groups D))"
    using activateTargets_listed [OF assms(1,2,3), where proto = proto] e by simp
  have s: "listed P (validDrops (fst (activateShim proto m P))) \<longleftrightarrow> fst (inGroup proto P (groups D))"
    by (rule activateShim_listed [OF assms(1,5,6)])
  show ?thesis
    using g t s lookup_listed [of P inViewport "activateTargets proto m"]
      lookup_listed [of P inViewport "fst (activateShim proto m P)"]
    by blast
qed

lemma engine_proto_a [simp]: "\<not> engine_proto ''a''"
  by (simp add: engine_proto_def)

theorem C8_group_matching_witness:
  "\<not> fst (inGroup engine_proto drop_B (groups drag_50)) \<and>
   \<not> listed drop_B
       (validDrops (activateTargets engine_proto (ddm_of (Some drag_50) [drop_A, drop_B]))) \<and>
   fst (inGroup engine_proto (drop_B\<lparr>drop_groups := [''a'', ''b'']\<rparr>) (groups drag_50)) \<and>
   listed (drop_B\<lparr>drop_groups := [''a'', ''b'']\<rparr>)
     (validDrops (activateTargets engine_proto
        (ddm_of (Some drag_50) [drop_A, drop_B\<lparr>drop_groups := [''a'', ''b'']\<rparr>])))"
  using C8_group_matching [where m = "ddm_of (Some drag_50) [drop_A, drop_B]"
      and D = drag_50 and P = drop_B and proto = engine_proto]
    C8_group_matching [where m = "ddm_of (Some drag_50) [drop_A, drop_B\<lparr>drop_groups := [''a'', ''b'']\<rparr>]"
      and D = drag_50 and P = "drop_B\<lparr>drop_groups := [''a'', ''b'']\<rparr>" and proto = engine_proto]
  by simp

text \<open>
  A locked Drop in the drag's group: \<open>inGroup\<close> holds, yet activation does not add
  it to \<open>validDrops\<close>.
\<close>

theorem C8_locked_drop_counterexample:
  "drop_lock drop_locked \<and> set (groups drag_50) \<inter> set (drop_groups drop_locked) \<noteq> {} \<and>
   fst (inGroup engine_proto drop_locked (groups drag_50)) \<and>
   \<not> listed drop_locked
       (validDrops (activateTargets engine_proto (ddm_of (Some drag_50) [drop_locked])))"
  by (simp add: inGroup_def has_property_def listed_def
      activateTargets_def activateShim_def clearCache_def Let_def)

text \<open>
  C10.  During target activation a Drop whose node is the node of the active drag,
  or whose \<open>lock\<close> attribute is true, is left as it is by \<open>_activateShim\<close>, whatever
  its groups; after \<open>_activateTargets\<close> it is not in \<open>validDrops\<close> and not among the
  drops that hit-testing visits.
\<close>

theorem C10_never_own_or_locked_target:
  assumes "activeDrag m = Some D" and "distinct (map yuid (targets m))"
    and "P \<in> set (targets m)" and "drop_node P = node D \<or> drop_lock P"
  shows "activateShim proto m P = (m, P) \<and>
         \<not> listed P (validDrops (activateTargets proto m)) \<and>
         \<not> listed P (lookup inViewport (activateTargets proto m))"
proof -
  have "\<not> eligible proto D P" using assms(4) by (auto simp: eligible_def)
  then have n: "\<not> listed P (validDrops (activateTargets proto m))"
    using activateTargets_listed [OF assms(1,2,3), where proto = proto] by simp
  then have "\<not> listed P (lookup inViewport (activateTargets proto m))"
    using lookup_listed [of P inViewport "activateTargets proto m"] by blast
  then show ?thesis using n activateShim_skip [OF assms(1,4)] by simp
qed

theorem C10_never_own_or_locked_target_witness:
  "\<not> listed drop_self
       (validDrops (activateTargets engine_proto
          (ddm_of (Some drag_50) [drop_A, drop_self, drop_locked]))) \<and>
   \<not> listed drop_locked
       (validDrops (activateTargets engine_proto
          (ddm_of (Some drag_50) [drop_A, drop_self, drop_locked]))) \<and>
   activateShim engine_proto (ddm_of (Some drag_50) [drop_A, drop_self, drop_locked]) drop_self =
     (ddm_of (Some drag_50) [drop_A, drop_self, drop_locked], drop_self) \<and>
   fst (inGroup engine_proto drop_self (groups drag_50)) \<and>
   fst (inGroup engine_proto drop_locked (groups drag_50))"
  using C10_never_own_or_locked_target
          [where m = "ddm_of (Some drag_50) [drop_A, drop_self, drop_locked]"
             and D = drag_50 and P = drop_self and proto = engine_proto]
        C10_never_own_or_locked_target
          [where m = "ddm_of (Some drag_50) [drop_A, drop_self, drop_locked]"
             and D = drag_50 and P = drop_locked and proto = engine_proto]
  by (simp add: inGroup_iff has_property_def)

end
